theory Spec2Isabelle
  imports Main "HOL-Library.Sublist"
begin

section \<open>JSON documents as \<^verbatim>\<open>json.loads\<close> returns them\<close>

text \<open>
  \<^verbatim>\<open>json.loads\<close> returns \<^verbatim>\<open>None\<close>, a \<^verbatim>\<open>bool\<close>, an \<^verbatim>\<open>int\<close>, a \<^verbatim>\<open>float\<close>,
  a \<^verbatim>\<open>str\<close>, a \<^verbatim>\<open>list\<close> or a \<^verbatim>\<open>dict\<close> with string keys. The merge never looks
  inside a float, so its representation is the type parameter \<open>'f\<close>. A Python
  \<^verbatim>\<open>dict\<close> keeps its keys in insertion order, so it is an association list; that no
  key occurs twice in it is the predicate \<open>wf_json\<close> below. The operations on a
  dictionary are written for any type of values: they serve again where the values
  are references into a store.
\<close>

datatype 'f json =
    JNull
  | JBool bool
  | JInt int
  | JFloat 'f
  | JStr string
  | JList "'f json list"
  | JDict "(string \<times> 'f json) list"

type_synonym 'f dict = "(string \<times> 'f json) list"

text \<open>\<^verbatim>\<open>d.keys()\<close>, in order.\<close>

definition keys :: "(string \<times> 'v) list \<Rightarrow> string list" where
  "keys d = map fst d"

text \<open>\<^verbatim>\<open>d.get(key)\<close>: \<open>None\<close> stands for \<^verbatim>\<open>key not in d\<close>, \<open>Some v\<close> for \<^verbatim>\<open>d[key]\<close>.\<close>

fun lookup :: "(string \<times> 'v) list \<Rightarrow> string \<Rightarrow> 'v option" where
  "lookup [] key = None"
| "lookup ((k, v) # d) key = (if k = key then Some v else lookup d key)"

text \<open>
  \<^verbatim>\<open>d[key] = value\<close>: an existing key keeps its position and takes the new value,
  a new key goes to the end.
\<close>

fun setitem :: "(string \<times> 'v) list \<Rightarrow> string \<Rightarrow> 'v \<Rightarrow> (string \<times> 'v) list" where
  "setitem [] key value = [(key, value)]"
| "setitem ((k, v) # d) key value =
     (if k = key then (k, value) # d else (k, v) # setitem d key value)"

text \<open>What a parsed document satisfies: no dictionary in it holds a key twice.\<close>

fun wf_json :: "'f json \<Rightarrow> bool" where
  "wf_json (JDict d) = (distinct (map fst d) \<and> list_all (\<lambda>kv. wf_json (snd kv)) d)"
| "wf_json (JList xs) = list_all wf_json xs"
| "wf_json _ = True"

section \<open>The structured merge\<close>

text \<open>
  \<^verbatim>\<open>ConflictResolver._merge_dict_recursive\<close> (conflict-resolution.py, lines 128 to 136).
  \<open>merge_items result items\<close> is the \<^verbatim>\<open>for key, value in dict2.items()\<close> loop with
  \<open>items\<close> still to visit; \<open>result\<close> starts as \<^verbatim>\<open>dict1.copy()\<close>.
\<close>

fun merge_dict_recursive :: "'f dict \<Rightarrow> 'f dict \<Rightarrow> 'f dict"
  and merge_items :: "'f dict \<Rightarrow> 'f dict \<Rightarrow> 'f dict" where
  "merge_dict_recursive dict1 dict2 = merge_items dict1 dict2"
| "merge_items result [] = result"
| "merge_items result ((key, value) # rest) =
     merge_items
       (case lookup result key of
          None \<Rightarrow> setitem result key value
        | Some cur \<Rightarrow>
            (case (cur, value) of
               (JDict d1, JDict d2) \<Rightarrow> setitem result key (JDict (merge_dict_recursive d1 d2))
             | _ \<Rightarrow> result))
       rest"

text \<open>
  The loop of \<^verbatim>\<open>resolve_json_conflict\<close> (lines 106 to 111): like the one above, but
  the tests read \<^verbatim>\<open>main_data\<close> while the writes go to \<^verbatim>\<open>merged_data\<close>.
\<close>

fun merge_top_items :: "'f dict \<Rightarrow> 'f dict \<Rightarrow> 'f dict \<Rightarrow> 'f dict" where
  "merge_top_items main_data merged [] = merged"
| "merge_top_items main_data merged ((key, value) # rest) =
     merge_top_items main_data
       (case lookup main_data key of
          None \<Rightarrow> setitem merged key value
        | Some cur \<Rightarrow>
            (case (cur, value) of
               (JDict d1, JDict d2) \<Rightarrow> setitem merged key (JDict (merge_dict_recursive d1 d2))
             | _ \<Rightarrow> merged))
       rest"

text \<open>
  The value of \<^verbatim>\<open>merged_data\<close> after line 111 of \<^verbatim>\<open>resolve_json_conflict\<close>, from the
  two parsed documents: the merge of the two documents.
\<close>

definition merged_data :: "'f json \<Rightarrow> 'f json \<Rightarrow> 'f json" where
  "merged_data main_data head_data =
     (case (main_data, head_data) of
        (JDict m, JDict h) \<Rightarrow> JDict (merge_top_items m m h)
      | _ \<Rightarrow> main_data)"

subsection \<open>Notions used to state the properties\<close>

text \<open>The value found by following a list of keys down through nested dictionaries.\<close>

fun get_path :: "'f json \<Rightarrow> string list \<Rightarrow> 'f json option" where
  "get_path j [] = Some j"
| "get_path (JDict d) (k # ks) =
     (case lookup d k of None \<Rightarrow> None | Some v \<Rightarrow> get_path v ks)"
| "get_path _ (k # ks) = None"

text \<open>One pass of the loop body of \<^verbatim>\<open>_merge_dict_recursive\<close>, for the proofs.\<close>

definition merge_step :: "'f dict \<Rightarrow> string \<Rightarrow> 'f json \<Rightarrow> 'f dict" where
  "merge_step result key v =
     (case lookup result key of
        None \<Rightarrow> setitem result key v
      | Some cur \<Rightarrow>
          (case (cur, v) of
             (JDict d1, JDict d2) \<Rightarrow> setitem result key (JDict (merge_dict_recursive d1 d2))
           | _ \<Rightarrow> result))"

text \<open>The value a key present on both sides ends with.\<close>

definition merge_value :: "'f json \<Rightarrow> 'f json \<Rightarrow> 'f json" where
  "merge_value cur v =
     (case (cur, v) of
        (JDict d1, JDict d2) \<Rightarrow> JDict (merge_dict_recursive d1 d2)
      | _ \<Rightarrow> cur)"

text \<open>
  The merge in the words of the specification (section 4.6), to compare with the code's:
  when both documents are mappings, the keys of the current one come first, in their
  order, a key that the incoming one has too holding the merge of the two values; the
  keys that only the incoming one has follow, in their order, with its values. In every
  other case the current document stands and the incoming one is dropped: this is the
  second equation, which the first one reaches for two values that are not both mappings.
\<close>

fun spec_merge :: "'f json \<Rightarrow> 'f json \<Rightarrow> 'f json" where
  "spec_merge (JDict current) (JDict incoming) =
     JDict (map (\<lambda>kv. (fst kv,
                        (case lookup incoming (fst kv) of
                           None \<Rightarrow> snd kv
                         | Some w \<Rightarrow> spec_merge (snd kv) w))) current
            @ filter (\<lambda>kv. lookup current (fst kv) = None) incoming)"
| "spec_merge current incoming = current"

text \<open>The two documents of the first end-to-end scenario of the specification.\<close>

definition scenario_current :: "'f json" where
  "scenario_current =
     JDict [(''app'', JDict [(''port'', JInt 3000)]),
            (''database'', JDict [(''host'', JStr ''localhost'')])]"

definition scenario_incoming :: "'f json" where
  "scenario_incoming =
     JDict [(''app'', JDict [(''port'', JInt 3000), (''debug'', JBool True)]),
            (''database'', JDict [(''host'', JStr ''localhost''), (''ssl'', JBool True)]),
            (''features'', JDict [(''logging'', JBool True)])]"

text \<open>The two documents of the second end-to-end scenario of the specification.\<close>

definition versions_current :: "'f json" where
  "versions_current =
     JDict [(''version'', JStr ''1.0.1''), (''engines'', JDict [(''node'', JStr ''>=16'')])]"

definition versions_incoming :: "'f json" where
  "versions_incoming =
     JDict [(''version'', JStr ''1.1.0''), (''scripts'', JDict [(''start'', JStr ''x'')])]"


section \<open>Strings and paths\<close>

text \<open>
  A \<^verbatim>\<open>str\<close> is the sequence of its UTF-8 bytes. \<^verbatim>\<open>str.lower()\<close> on the ASCII capitals:
  a capital has code 65 to 90 and bit 5 clear, and setting that bit adds 32. Outside
  ASCII, \<^verbatim>\<open>str.lower()\<close> gives an ASCII letter only for U+212A (\<^verbatim>\<open>k\<close>) and U+0130 (\<^verbatim>\<open>i\<close>
  and a combining dot after it): neither lets \<^verbatim>\<open>readme.md\<close> or \<^verbatim>\<open>config\<close> match, so the
  tests below answer as the source's do.
\<close>

definition lower_char :: "char \<Rightarrow> char" where
  "lower_char c =
     (if 65 \<le> (of_char c :: nat) \<and> (of_char c :: nat) \<le> 90
      then (case c of Char b0 b1 b2 b3 b4 b5 b6 b7 \<Rightarrow> Char b0 b1 b2 b3 b4 True b6 b7)
      else c)"

definition lower :: "string \<Rightarrow> string" where
  "lower s = map lower_char s"

text \<open>\<^verbatim>\<open>s.endswith(t)\<close>.\<close>

definition endswith :: "string \<Rightarrow> string \<Rightarrow> bool" where
  "endswith s t = (length t \<le> length s \<and> drop (length s - length t) s = t)"

text \<open>\<^verbatim>\<open>sub in s\<close>.\<close>

fun contains :: "string \<Rightarrow> string \<Rightarrow> bool" where
  "contains sub [] = (sub = [])"
| "contains sub (c # cs) = (take (length sub) (c # cs) = sub \<or> contains sub cs)"

text \<open>
  The characters \<^verbatim>\<open>str.strip()\<close> removes, those \<^verbatim>\<open>str.isspace()\<close> accepts, each as its
  UTF-8 bytes: U+0009 to U+000D, U+001C to U+0020, U+0085, U+00A0, U+1680, U+2000 to
  U+200A, U+2028, U+2029, U+202F, U+205F and U+3000.
\<close>

definition space_codes :: "string list" where
  "space_codes =
     [[CHR 0x09], [CHR 0x0A], [CHR 0x0B], [CHR 0x0C], [CHR 0x0D],
      [CHR 0x1C], [CHR 0x1D], [CHR 0x1E], [CHR 0x1F], [CHR 0x20],
      [CHR 0xC2, CHR 0x85], [CHR 0xC2, CHR 0xA0],
      [CHR 0xE1, CHR 0x9A, CHR 0x80],
      [CHR 0xE2, CHR 0x80, CHR 0x80], [CHR 0xE2, CHR 0x80, CHR 0x81],
      [CHR 0xE2, CHR 0x80, CHR 0x82], [CHR 0xE2, CHR 0x80, CHR 0x83],
      [CHR 0xE2, CHR 0x80, CHR 0x84], [CHR 0xE2, CHR 0x80, CHR 0x85],
      [CHR 0xE2, CHR 0x80, CHR 0x86], [CHR 0xE2, CHR 0x80, CHR 0x87],
      [CHR 0xE2, CHR 0x80, CHR 0x88], [CHR 0xE2, CHR 0x80, CHR 0x89],
      [CHR 0xE2, CHR 0x80, CHR 0x8A],
      [CHR 0xE2, CHR 0x80, CHR 0xA8], [CHR 0xE2, CHR 0x80, CHR 0xA9],
      [CHR 0xE2, CHR 0x80, CHR 0xAF],
      [CHR 0xE2, CHR 0x81, CHR 0x9F],
      [CHR 0xE3, CHR 0x80, CHR 0x80]]"

text \<open>
  The string without the leading characters that are among \<open>codes\<close>, and \<^verbatim>\<open>s.strip()\<close>:
  the white space is removed from the front, then from the back, where the bytes of a
  character come in reverse.
\<close>

fun drop_codes :: "string list \<Rightarrow> string \<Rightarrow> string" where
  "drop_codes codes [] = []"
| "drop_codes codes (c # cs) =
     (case find (\<lambda>w. take (length w) (c # cs) = w) codes of
        None \<Rightarrow> c # cs
      | Some w \<Rightarrow> drop_codes codes (drop (length w - 1) cs))"

definition strip :: "string \<Rightarrow> string" where
  "strip s = rev (drop_codes (map rev space_codes) (rev (drop_codes space_codes s)))"

text \<open>\<^verbatim>\<open>s.split('\n')\<close>: never an empty list.\<close>

fun split_nl :: "string \<Rightarrow> string list" where
  "split_nl [] = [[]]"
| "split_nl (c # cs) =
     (if c = CHR 0x0A then [] # split_nl cs
      else (c # hd (split_nl cs)) # tl (split_nl cs))"

text \<open>\<^verbatim>\<open>os.path.join(a, b)\<close> for two POSIX paths.\<close>

definition path_join :: "string \<Rightarrow> string \<Rightarrow> string" where
  "path_join a b =
     (if b \<noteq> [] \<and> hd b = CHR ''/'' then b
      else if a = [] \<or> last a = CHR ''/'' then a @ b
      else a @ ''/'' @ b)"

section \<open>The choice of a strategy\<close>

text \<open>
  The three branches of the loop body of \<^verbatim>\<open>resolve_all_conflicts\<close> (lines 175 to 184),
  named as the specification names them.
\<close>

datatype strategy = PreserveIncoming | StructuredMerge | PreferCurrent

definition classify :: "string \<Rightarrow> strategy" where
  "classify filepath =
     (if endswith (lower filepath) ''readme.md'' then PreserveIncoming
      else if endswith filepath ''.json'' \<or> contains ''config'' (lower filepath)
      then StructuredMerge
      else PreferCurrent)"

text \<open>
  The specification's reading of the documentation rule, to compare with the source's:
  the final segment of the path, whatever the case of its letters, is \<^verbatim>\<open>readme.md\<close>.
\<close>

definition final_segment :: "string \<Rightarrow> string" where
  "final_segment path = rev (takeWhile (\<lambda>c. c \<noteq> CHR ''/'') (rev path))"

definition spec_is_documentation :: "string \<Rightarrow> bool" where
  "spec_is_documentation path = (lower (final_segment path) = ''readme.md'')"

section \<open>The resolver and the version-control tool\<close>

text \<open>
  What \<^verbatim>\<open>subprocess.run(..., capture_output=True, text=True)\<close> returns.
\<close>

record completed_process =
  returncode :: int
  stdout :: string
  stderr :: string

text \<open>
  The exceptions of the program: the \<^verbatim>\<open>RuntimeError\<close> of \<^verbatim>\<open>_get_repo_root\<close>, the
  \<^verbatim>\<open>json.JSONDecodeError\<close> of \<^verbatim>\<open>json.loads\<close>, the \<^verbatim>\<open>OSError\<close> of \<^verbatim>\<open>open(..., 'w')\<close>.
\<close>

datatype exn = RuntimeError string | JSONDecodeError | OSError

text \<open>One constructor for each \<^verbatim>\<open>print\<close> of the program, with the values it formats.\<close>

datatype message =
    Banner
  | ResolvingReadme string
  | PreservedReadme string
  | ResolvingJson string
  | MergedJson string
  | FailedMergeJson string exn
  | ResolvingDefault string
  | ResolvedDefault string
  | NoConflictsDetected
  | FoundConflicts nat
  | ConflictLine string
  | FailedResolve string
  | ResolvedCount nat nat
  | NoChangesToCommit
  | Committed string
  | FailedCommit string
  | AllResolved
  | SomeUnresolved
  | ErrorDuring exn

text \<open>
  What the program does to the outside, in order: a command run (with its \<^verbatim>\<open>cwd\<close>), a
  file written, a line printed.
\<close>

datatype event =
    Run "string list" "string option"
  | Write string string
  | Print message

text \<open>
  The outside, which is not code of the program, is a parameter: \<open>run\<close> answers a command
  from the state \<open>'w\<close> of the repository and the file system and gives the next state;
  \<open>write_file\<close> is \<^verbatim>\<open>open(path, 'w')\<close> followed by the writes, \<open>None\<close> when it raises;
  \<open>loads\<close> is \<^verbatim>\<open>json.loads\<close>, \<open>None\<close> when it raises; \<open>dump\<close> is the text
  \<^verbatim>\<open>json.dump(..., indent=2, ensure_ascii=False)\<close> writes. A command that cannot be
  started, or whose output is not text, is not modelled.
\<close>

record ('w, 'f) env =
  run :: "string list \<Rightarrow> string option \<Rightarrow> 'w \<Rightarrow> completed_process \<times> 'w"
  write_file :: "string \<Rightarrow> string \<Rightarrow> 'w \<Rightarrow> 'w option"
  loads :: "string \<Rightarrow> 'f json option"
  dump :: "'f json \<Rightarrow> string"

text \<open>The running process: the outside and what was done to it so far.\<close>

record 'w proc =
  world :: 'w
  trace :: "event list"

text \<open>The fields of a \<^verbatim>\<open>ConflictResolver\<close>.\<close>

record resolver =
  repo_root :: string
  conflicts :: "string list"

definition emit :: "message \<Rightarrow> 'w proc \<Rightarrow> 'w proc" where
  "emit m p = p\<lparr>trace := trace p @ [Print m]\<rparr>"

definition subprocess_run ::
  "('w, 'f) env \<Rightarrow> string list \<Rightarrow> string option \<Rightarrow> 'w proc \<Rightarrow> completed_process \<times> 'w proc"
  where
  "subprocess_run E cmd cwd p =
     (case run E cmd cwd (world p) of
        (result, w) \<Rightarrow> (result, \<lparr>world = w, trace = trace p @ [Run cmd cwd]\<rparr>))"

definition open_write :: "('w, 'f) env \<Rightarrow> string \<Rightarrow> string \<Rightarrow> 'w proc \<Rightarrow> exn + 'w proc" where
  "open_write E path content p =
     (case write_file E path content (world p) of
        None \<Rightarrow> Inl OSError
      | Some w \<Rightarrow> Inr \<lparr>world = w, trace = trace p @ [Write path content]\<rparr>)"

text \<open>\<^verbatim>\<open>_get_repo_root\<close> (lines 25 to 36); \<^verbatim>\<open>check=True\<close> raises on a non-zero exit.\<close>

definition get_repo_root :: "('w, 'f) env \<Rightarrow> 'w proc \<Rightarrow> (exn + string) \<times> 'w proc" where
  "get_repo_root E p =
     (case subprocess_run E [''git'', ''rev-parse'', ''--show-toplevel''] None p of
        (result, p1) \<Rightarrow>
          if returncode result \<noteq> 0 then (Inl (RuntimeError ''Not in a git repository''), p1)
          else (Inr (strip (stdout result)), p1))"

text \<open>\<^verbatim>\<open>__init__\<close> (lines 21 to 23).\<close>

definition ConflictResolver :: "('w, 'f) env \<Rightarrow> 'w proc \<Rightarrow> (exn + resolver) \<times> 'w proc" where
  "ConflictResolver E p =
     (case get_repo_root E p of
        (Inl e, p1) \<Rightarrow> (Inl e, p1)
      | (Inr root, p1) \<Rightarrow> (Inr \<lparr>repo_root = root, conflicts = []\<rparr>, p1))"

text \<open>\<^verbatim>\<open>_run_git_command\<close> (lines 38 to 40).\<close>

definition run_git_command ::
  "('w, 'f) env \<Rightarrow> resolver \<Rightarrow> string list \<Rightarrow> 'w proc \<Rightarrow> completed_process \<times> 'w proc" where
  "run_git_command E self cmd p = subprocess_run E cmd (Some (repo_root self)) p"

text \<open>\<^verbatim>\<open>detect_conflicts\<close> (lines 42 to 49): the list returned, \<^verbatim>\<open>self\<close> and the process.\<close>

definition detect_conflicts ::
  "('w, 'f) env \<Rightarrow> resolver \<Rightarrow> 'w proc \<Rightarrow> string list \<times> resolver \<times> 'w proc" where
  "detect_conflicts E self p =
     (case run_git_command E self [''git'', ''diff'', ''--name-only'', ''--diff-filter=U''] p of
        (result, p1) \<Rightarrow>
          if returncode result = 0
          then (let cs = map strip (filter (\<lambda>f. strip f \<noteq> []) (split_nl (stdout result)))
                in (cs, self\<lparr>conflicts := cs\<rparr>, p1))
          else ([], self, p1))"

text \<open>\<^verbatim>\<open>resolve_readme_conflict\<close> (lines 57 to 78).\<close>

definition resolve_readme_conflict ::
  "('w, 'f) env \<Rightarrow> resolver \<Rightarrow> string \<Rightarrow> 'w proc \<Rightarrow> (exn + bool) \<times> 'w proc" where
  "resolve_readme_conflict E self filepath p =
     (if \<not> endswith (lower filepath) ''readme.md'' then (Inr False, p)
      else
        (case run_git_command E self [''git'', ''show'', ''MERGE_HEAD:'' @ filepath]
                (emit (ResolvingReadme filepath) p) of
           (result, p1) \<Rightarrow>
             if returncode result = 0
             then (case open_write E (path_join (repo_root self) filepath) (stdout result) p1 of
                     Inl e \<Rightarrow> (Inl e, p1)
                   | Inr p2 \<Rightarrow>
                       (case run_git_command E self [''git'', ''add'', filepath] p2 of
                          (added, p3) \<Rightarrow> (Inr True, emit (PreservedReadme filepath) p3)))
             else (Inr False, p1)))"

text \<open>
  \<^verbatim>\<open>resolve_json_conflict\<close> (lines 80 to 126). Whatever is raised inside the \<^verbatim>\<open>try\<close>
  is caught, reported and answered with \<^verbatim>\<open>False\<close>, so the function raises nothing.
\<close>

definition resolve_json_conflict ::
  "('w, 'f) env \<Rightarrow> resolver \<Rightarrow> string \<Rightarrow> 'w proc \<Rightarrow> bool \<times> 'w proc" where
  "resolve_json_conflict E self filepath p =
     (if \<not> (endswith filepath ''.json'' \<or> contains ''config'' (lower filepath)) then (False, p)
      else
        (case run_git_command E self [''git'', ''show'', ''HEAD:'' @ filepath]
                (emit (ResolvingJson filepath) p) of
           (main_result, p1) \<Rightarrow>
        (case run_git_command E self [''git'', ''show'', ''MERGE_HEAD:'' @ filepath] p1 of
           (head_result, p2) \<Rightarrow>
             if returncode main_result \<noteq> 0 \<or> returncode head_result \<noteq> 0 then (False, p2)
             else
               (case loads E (stdout main_result) of
                  None \<Rightarrow> (False, emit (FailedMergeJson filepath JSONDecodeError) p2)
                | Some main_data \<Rightarrow>
               (case loads E (stdout head_result) of
                  None \<Rightarrow> (False, emit (FailedMergeJson filepath JSONDecodeError) p2)
                | Some head_data \<Rightarrow>
               (case open_write E (path_join (repo_root self) filepath)
                       (dump E (merged_data main_data head_data) @ [CHR 0x0A]) p2 of
                  Inl e \<Rightarrow> (False, emit (FailedMergeJson filepath e) p2)
                | Inr p3 \<Rightarrow>
                    (case run_git_command E self [''git'', ''add'', filepath] p3 of
                       (added, p4) \<Rightarrow> (True, emit (MergedJson filepath) p4))))))))"

text \<open>\<^verbatim>\<open>resolve_default_conflict\<close> (lines 138 to 155).\<close>

definition resolve_default_conflict ::
  "('w, 'f) env \<Rightarrow> resolver \<Rightarrow> string \<Rightarrow> 'w proc \<Rightarrow> (exn + bool) \<times> 'w proc" where
  "resolve_default_conflict E self filepath p =
     (case run_git_command E self [''git'', ''show'', ''HEAD:'' @ filepath]
             (emit (ResolvingDefault filepath) p) of
        (result, p1) \<Rightarrow>
          if returncode result = 0
          then (case open_write E (path_join (repo_root self) filepath) (stdout result) p1 of
                  Inl e \<Rightarrow> (Inl e, p1)
                | Inr p2 \<Rightarrow>
                    (case run_git_command E self [''git'', ''add'', filepath] p2 of
                       (added, p3) \<Rightarrow> (Inr True, emit (ResolvedDefault filepath) p3)))
          else (Inr False, p1))"

text \<open>
  The body of the loop of \<^verbatim>\<open>resolve_all_conflicts\<close> up to line 184, in two parts: the
  strategy chosen by the \<^verbatim>\<open>if\<close> and the \<^verbatim>\<open>elif\<close> (lines 172 to 180), then the default
  when \<^verbatim>\<open>resolved\<close> is still false (lines 183 and 184). The result is \<^verbatim>\<open>resolved\<close>.
\<close>

definition attempt_classified ::
  "('w, 'f) env \<Rightarrow> resolver \<Rightarrow> string \<Rightarrow> 'w proc \<Rightarrow> (exn + bool) \<times> 'w proc" where
  "attempt_classified E self filepath p =
     (if endswith (lower filepath) ''readme.md'' then resolve_readme_conflict E self filepath p
      else if endswith filepath ''.json'' \<or> contains ''config'' (lower filepath)
      then (case resolve_json_conflict E self filepath p of (resolved, p1) \<Rightarrow> (Inr resolved, p1))
      else (Inr False, p))"

definition resolve_file ::
  "('w, 'f) env \<Rightarrow> resolver \<Rightarrow> string \<Rightarrow> 'w proc \<Rightarrow> (exn + bool) \<times> 'w proc" where
  "resolve_file E self filepath p =
     (case attempt_classified E self filepath p of
        (Inl e, p1) \<Rightarrow> (Inl e, p1)
      | (Inr resolved, p1) \<Rightarrow>
          if \<not> resolved then resolve_default_conflict E self filepath p1
          else (Inr resolved, p1))"

text \<open>
  The loop of \<^verbatim>\<open>resolve_all_conflicts\<close> (lines 171 to 189) over the paths still to
  visit; the result is \<^verbatim>\<open>resolved_count\<close>.
\<close>

fun resolve_files ::
  "('w, 'f) env \<Rightarrow> resolver \<Rightarrow> string list \<Rightarrow> nat \<Rightarrow> 'w proc \<Rightarrow> (exn + nat) \<times> 'w proc" where
  "resolve_files E self [] resolved_count p = (Inr resolved_count, p)"
| "resolve_files E self (filepath # rest) resolved_count p =
     (case resolve_file E self filepath p of
        (Inl e, p1) \<Rightarrow> (Inl e, p1)
      | (Inr resolved, p1) \<Rightarrow>
          if resolved then resolve_files E self rest (resolved_count + 1) p1
          else resolve_files E self rest resolved_count (emit (FailedResolve filepath) p1))"

text \<open>\<^verbatim>\<open>resolve_all_conflicts\<close> (lines 157 to 192): the answer, \<^verbatim>\<open>self\<close> and the process.\<close>

definition resolve_all_conflicts ::
  "('w, 'f) env \<Rightarrow> resolver \<Rightarrow> 'w proc \<Rightarrow> (exn + bool) \<times> resolver \<times> 'w proc" where
  "resolve_all_conflicts E self p =
     (case detect_conflicts E self p of
        (cs, self1, p1) \<Rightarrow>
          if cs = [] then (Inr True, self1, emit NoConflictsDetected p1)
          else
            (case resolve_files E self1 cs 0
                    (fold (\<lambda>c. emit (ConflictLine c)) cs (emit (FoundConflicts (length cs)) p1)) of
               (Inl e, p2) \<Rightarrow> (Inl e, self1, p2)
             | (Inr resolved_count, p2) \<Rightarrow>
                 (Inr (resolved_count = length cs), self1,
                  emit (ResolvedCount resolved_count (length cs)) p2)))"

text \<open>\<^verbatim>\<open>commit_resolution\<close> (lines 194 to 209).\<close>

definition commit_resolution ::
  "('w, 'f) env \<Rightarrow> resolver \<Rightarrow> string \<Rightarrow> 'w proc \<Rightarrow> bool \<times> 'w proc" where
  "commit_resolution E self message p =
     (case run_git_command E self [''git'', ''diff'', ''--cached'', ''--name-only''] p of
        (result, p1) \<Rightarrow>
          if strip (stdout result) = [] then (True, emit NoChangesToCommit p1)
          else
            (case run_git_command E self [''git'', ''commit'', ''-m'', message] p1 of
               (commit_result, p2) \<Rightarrow>
                 if returncode commit_result = 0 then (True, emit (Committed message) p2)
                 else (False, emit (FailedCommit (stderr commit_result)) p2)))"

text \<open>
  \<^verbatim>\<open>main\<close> (lines 212 to 234): the exit status and the process at exit. The value of
  \<^verbatim>\<open>commit_resolution\<close> is not read (line 225).
\<close>

definition main :: "('w, 'f) env \<Rightarrow> 'w \<Rightarrow> int \<times> 'w proc" where
  "main E w =
     (case ConflictResolver E (emit Banner \<lparr>world = w, trace = []\<rparr>) of
        (Inl e, p1) \<Rightarrow> (1, emit (ErrorDuring e) p1)
      | (Inr self, p1) \<Rightarrow>
          (case resolve_all_conflicts E self p1 of
             (Inl e, self1, p2) \<Rightarrow> (1, emit (ErrorDuring e) p2)
           | (Inr success, self1, p2) \<Rightarrow>
               if success
               then (case commit_resolution E self1
                            ''Auto-resolve merge conflicts following WebQx rules'' p2 of
                       (committed, p3) \<Rightarrow> (0, emit AllResolved p3))
               else (1, emit SomeUnresolved p2)))"

subsection \<open>Concrete repositories for the examples\<close>

text \<open>
  A repository as the examples need it: the answer to each command is fixed, the state is
  the list of paths staged so far. \<open>inside\<close> says whether \<^verbatim>\<open>git rev-parse\<close> succeeds,
  \<open>listing\<close> is the answer to the listing of conflicted paths, \<open>at_rev\<close> gives the content
  of a path at a revision (\<open>None\<close>: the path is not there), \<open>commit_code\<close> is the exit
  status of \<^verbatim>\<open>git commit\<close>. No document parses.
\<close>

definition answer :: "int \<Rightarrow> string \<Rightarrow> completed_process" where
  "answer rc out = \<lparr>returncode = rc, stdout = out, stderr = []\<rparr>"

definition show_answer :: "(string \<Rightarrow> string option) \<Rightarrow> string \<Rightarrow> completed_process" where
  "show_answer at_rev spec =
     (case at_rev spec of None \<Rightarrow> answer 128 [] | Some content \<Rightarrow> answer 0 content)"

definition sample_run ::
  "bool \<Rightarrow> completed_process \<Rightarrow> (string \<Rightarrow> string option) \<Rightarrow> int \<Rightarrow>
   string list \<Rightarrow> string option \<Rightarrow> string list \<Rightarrow> completed_process \<times> string list" where
  "sample_run inside listing at_rev commit_code cmd cwd staged =
     (case cmd of
        [g, c, a] \<Rightarrow>
          if c = ''rev-parse'' then (if inside then answer 0 ''/repo'' else answer 128 [], staged)
          else if c = ''show'' then (show_answer at_rev a, staged)
          else if c = ''add'' then (answer 0 [], staged @ [a])
          else (answer 1 [], staged)
      | [g, c, a, b] \<Rightarrow>
          if c = ''diff'' \<and> a = ''--name-only'' then (listing, staged)
          else if c = ''diff'' then (answer 0 (concat staged), staged)
          else if c = ''commit'' then (answer commit_code [], staged)
          else (answer 1 [], staged)
      | _ \<Rightarrow> (answer 1 [], staged))"

definition sample_env ::
  "bool \<Rightarrow> completed_process \<Rightarrow> (string \<Rightarrow> string option) \<Rightarrow> int \<Rightarrow> (string list, unit) env"
  where
  "sample_env inside listing at_rev commit_code =
     \<lparr>run = sample_run inside listing at_rev commit_code,
      write_file = (\<lambda>path content staged. Some staged),
      loads = (\<lambda>text. None),
      dump = (\<lambda>doc. [])\<rparr>"

text \<open>One conflicted path, \<^verbatim>\<open>notes.txt\<close>, present at the current revision.\<close>

definition notes_at :: "string \<Rightarrow> string option" where
  "notes_at spec = (if spec = ''HEAD:notes.txt'' then Some ''current'' else None)"

text \<open>
  One conflicted path, \<^verbatim>\<open>README.md\<close>, present at the current revision and absent from
  the incoming one.
\<close>

definition readme_at :: "string \<Rightarrow> string option" where
  "readme_at spec = (if spec = ''HEAD:README.md'' then Some ''current'' else None)"

text \<open>One conflicted path, \<^verbatim>\<open>config.json\<close>, present at both revisions with a content that does not parse.\<close>

definition config_at :: "string \<Rightarrow> string option" where
  "config_at spec =
     (if spec = ''HEAD:config.json'' \<or> spec = ''MERGE_HEAD:config.json'' then Some ''{''
      else None)"

text \<open>The resolver of these repositories, and the process before anything is done.\<close>

definition sample_self :: resolver where
  "sample_self = \<lparr>repo_root = ''/repo'', conflicts = []\<rparr>"

definition start :: "string list proc" where
  "start = \<lparr>world = [], trace = []\<rparr>"

text \<open>The program is started outside a repository.\<close>

definition outside_env :: "(string list, unit) env" where
  "outside_env = sample_env False (answer 0 []) notes_at 0"

text \<open>The conflict on \<^verbatim>\<open>notes.txt\<close> resolves, then \<^verbatim>\<open>git commit\<close> exits with status 1.\<close>

definition commit_fails_env :: "(string list, unit) env" where
  "commit_fails_env = sample_env True (answer 0 (''notes.txt'' @ [CHR 0x0A])) notes_at 1"

text \<open>The repositories with \<^verbatim>\<open>README.md\<close> absent from the incoming revision, with \<^verbatim>\<open>config.json\<close> absent from both revisions, and with \<^verbatim>\<open>config.json\<close> unparsable.\<close>

definition readme_env :: "(string list, unit) env" where
  "readme_env = sample_env True (answer 0 ''README.md'') readme_at 0"

definition unread_env :: "(string list, unit) env" where
  "unread_env = sample_env True (answer 0 ''config.json'') notes_at 0"

definition unparsed_env :: "(string list, unit) env" where
  "unparsed_env = sample_env True (answer 0 ''config.json'') config_at 0"

text \<open>The listing of conflicted paths exits with status 1; and a repository without conflicts.\<close>

definition failed_listing_env :: "(string list, unit) env" where
  "failed_listing_env = sample_env True (answer 1 []) notes_at 0"

definition clean_env :: "(string list, unit) env" where
  "clean_env = sample_env True (answer 0 []) notes_at 0"

text \<open>
  One conflicted path, \<^verbatim>\<open>docs/old-readme.md\<close>, present at both revisions with different
  contents.
\<close>

definition old_readme_at :: "string \<Rightarrow> string option" where
  "old_readme_at spec =
     (if spec = ''HEAD:docs/old-readme.md'' then Some ''current''
      else if spec = ''MERGE_HEAD:docs/old-readme.md'' then Some ''incoming''
      else None)"

definition old_readme_env :: "(string list, unit) env" where
  "old_readme_env = sample_env True (answer 0 ''docs/old-readme.md'') old_readme_at 0"


section \<open>The structured merge on the store\<close>

text \<open>
  To say what the merge does to its arguments, the documents are placed in a store. A
  \<^verbatim>\<open>dict\<close> and a \<^verbatim>\<open>list\<close> are objects of the store, named by their address, and a
  value is a scalar or the address of an object: two values with the same address are the
  same object, and a write through one is seen through the other. The store is a list of
  objects, the address is the index, and a new object goes to the end.
\<close>

type_synonym addr = nat

datatype 'f val = VNull | VBool bool | VInt int | VFloat 'f | VStr string | VRef addr

datatype 'f obj = ODict "(string \<times> 'f val) list" | OList "'f val list"

type_synonym 'f heap = "'f obj list"

text \<open>The items of the dictionary at an address; \<open>None\<close> when no dictionary is there.\<close>

definition dict_at :: "'f heap \<Rightarrow> addr \<Rightarrow> (string \<times> 'f val) list option" where
  "dict_at h a =
     (if a < length h then (case h ! a of ODict items \<Rightarrow> Some items | OList vs \<Rightarrow> None)
      else None)"

text \<open>\<^verbatim>\<open>isinstance(v, dict)\<close>.\<close>

definition is_dict :: "'f heap \<Rightarrow> 'f val \<Rightarrow> bool" where
  "is_dict h v = (case v of VRef a \<Rightarrow> dict_at h a \<noteq> None | _ \<Rightarrow> False)"

text \<open>\<^verbatim>\<open>d[key] = v\<close> on the dictionary at address \<open>a\<close>: the object is changed in place.\<close>

definition store_item :: "'f heap \<Rightarrow> addr \<Rightarrow> string \<Rightarrow> 'f val \<Rightarrow> 'f heap option" where
  "store_item h a key v =
     (case dict_at h a of
        None \<Rightarrow> None
      | Some items \<Rightarrow> Some (h[a := ODict (setitem items key v)]))"

text \<open>
  \<^verbatim>\<open>_merge_dict_recursive\<close> (lines 128 to 136) on the store. \<^verbatim>\<open>dict1.copy()\<close> is a new
  object with the items of \<^verbatim>\<open>dict1\<close> (the values are not copied); the loop visits the
  items \<^verbatim>\<open>dict2\<close> has when it starts and writes to the new object only, which it reads
  again at every pass. The first argument bounds the depth of the recursion: \<open>None\<close> is
  returned when it is used up, and when an address holds no dictionary where the code
  needs one.
\<close>

fun merge_dict_recursive_heap ::
    "nat \<Rightarrow> 'f heap \<Rightarrow> addr \<Rightarrow> addr \<Rightarrow> ('f heap \<times> addr) option"
  and merge_items_heap ::
    "nat \<Rightarrow> 'f heap \<Rightarrow> addr \<Rightarrow> (string \<times> 'f val) list \<Rightarrow> 'f heap option" where
  "merge_dict_recursive_heap 0 h dict1 dict2 = None"
| "merge_dict_recursive_heap (Suc n) h dict1 dict2 =
     (case dict_at h dict1 of
        None \<Rightarrow> None
      | Some items1 \<Rightarrow>
          (case dict_at h dict2 of
             None \<Rightarrow> None
           | Some items2 \<Rightarrow>
               (case merge_items_heap n (h @ [ODict items1]) (length h) items2 of
                  None \<Rightarrow> None
                | Some h1 \<Rightarrow> Some (h1, length h))))"
| "merge_items_heap n h result [] = Some h"
| "merge_items_heap n h result ((key, value) # rest) =
     (case dict_at h result of
        None \<Rightarrow> None
      | Some r \<Rightarrow>
          (case lookup r key of
             None \<Rightarrow>
               (case store_item h result key value of
                  None \<Rightarrow> None
                | Some h1 \<Rightarrow> merge_items_heap n h1 result rest)
           | Some cur \<Rightarrow>
               if is_dict h cur \<and> is_dict h value
               then (case (cur, value) of
                       (VRef a, VRef b) \<Rightarrow>
                         (case merge_dict_recursive_heap n h a b of
                            None \<Rightarrow> None
                          | Some (h1, m) \<Rightarrow>
                              (case store_item h1 result key (VRef m) of
                                 None \<Rightarrow> None
                               | Some h2 \<Rightarrow> merge_items_heap n h2 result rest))
                     | _ \<Rightarrow> None)
               else merge_items_heap n h result rest))"

text \<open>
  Lines 106 to 111 of \<^verbatim>\<open>resolve_json_conflict\<close> on the store: the tests read the
  dictionary \<^verbatim>\<open>main_data\<close>, the writes go to \<^verbatim>\<open>merged_data\<close>.
\<close>

fun merge_top_items_heap ::
    "nat \<Rightarrow> 'f heap \<Rightarrow> addr \<Rightarrow> addr \<Rightarrow> (string \<times> 'f val) list \<Rightarrow> 'f heap option" where
  "merge_top_items_heap n h main_data merged [] = Some h"
| "merge_top_items_heap n h main_data merged ((key, value) # rest) =
     (case dict_at h main_data of
        None \<Rightarrow> None
      | Some m \<Rightarrow>
          (case lookup m key of
             None \<Rightarrow>
               (case store_item h merged key value of
                  None \<Rightarrow> None
                | Some h1 \<Rightarrow> merge_top_items_heap n h1 main_data merged rest)
           | Some cur \<Rightarrow>
               if is_dict h cur \<and> is_dict h value
               then (case (cur, value) of
                       (VRef a, VRef b) \<Rightarrow>
                         (case merge_dict_recursive_heap n h a b of
                            None \<Rightarrow> None
                          | Some (h1, m1) \<Rightarrow>
                              (case store_item h1 merged key (VRef m1) of
                                 None \<Rightarrow> None
                               | Some h2 \<Rightarrow> merge_top_items_heap n h2 main_data merged rest))
                     | _ \<Rightarrow> None)
               else merge_top_items_heap n h main_data merged rest))"

text \<open>
  Lines 100 to 111: the store and the value of \<^verbatim>\<open>merged_data\<close> after the merge.
  When \<^verbatim>\<open>main_data\<close> is not a dictionary, \<^verbatim>\<open>merged_data\<close> is \<^verbatim>\<open>main_data\<close> itself
  (line 101).
\<close>

definition merged_data_heap ::
    "nat \<Rightarrow> 'f heap \<Rightarrow> 'f val \<Rightarrow> 'f val \<Rightarrow> ('f heap \<times> 'f val) option" where
  "merged_data_heap n h main_data head_data =
     (case main_data of
        VRef a \<Rightarrow>
          (case dict_at h a of
             None \<Rightarrow> Some (h, main_data)
           | Some items \<Rightarrow>
               (case head_data of
                  VRef b \<Rightarrow>
                    (case dict_at (h @ [ODict items]) b of
                       None \<Rightarrow> Some (h @ [ODict items], VRef (length h))
                     | Some items2 \<Rightarrow>
                         (case merge_top_items_heap n (h @ [ODict items]) a (length h) items2 of
                            None \<Rightarrow> None
                          | Some h1 \<Rightarrow> Some (h1, VRef (length h))))
                | _ \<Rightarrow> Some (h @ [ODict items], VRef (length h))))
      | _ \<Rightarrow> Some (h, main_data))"

text \<open>
  \<open>repr X h v j\<close>: in the store \<open>h\<close> the value \<open>v\<close> is the document \<open>j\<close>, and no object
  met on the way has its address in \<open>X\<close>. With \<open>X\<close> empty this is what \<^verbatim>\<open>==\<close> compares:
  two values are structurally equal when they are the same document.
\<close>

inductive repr :: "addr set \<Rightarrow> 'f heap \<Rightarrow> 'f val \<Rightarrow> 'f json \<Rightarrow> bool"
  for X :: "addr set" and h :: "'f heap" where
  repr_null: "repr X h VNull JNull"
| repr_bool: "repr X h (VBool b) (JBool b)"
| repr_int: "repr X h (VInt i) (JInt i)"
| repr_float: "repr X h (VFloat x) (JFloat x)"
| repr_str: "repr X h (VStr s) (JStr s)"
| repr_list: "a < length h \<Longrightarrow> a \<notin> X \<Longrightarrow> h ! a = OList vs \<Longrightarrow>
     list_all2 (repr X h) vs js \<Longrightarrow> repr X h (VRef a) (JList js)"
| repr_dict: "a < length h \<Longrightarrow> a \<notin> X \<Longrightarrow> h ! a = ODict items \<Longrightarrow>
     list_all2 (rel_prod (=) (repr X h)) items d \<Longrightarrow> repr X h (VRef a) (JDict d)"

text \<open>
  Two stores for the examples. In the first, addresses 1 and 3 hold
  \<^verbatim>\<open>{"app": {"port": 1}}\<close> and \<^verbatim>\<open>{"app": {"debug": true}}\<close>; in the second, address 0
  holds the list \<^verbatim>\<open>[1]\<close> and address 1 the empty dictionary.
\<close>

definition nested_heap :: "unit heap" where
  "nested_heap =
     [ODict [(''port'', VInt 1)],
      ODict [(''app'', VRef 0)],
      ODict [(''debug'', VBool True)],
      ODict [(''app'', VRef 2)]]"

definition list_heap :: "unit heap" where
  "list_heap = [OList [VInt 1], ODict []]"


section \<open>Properties of the dictionary operations\<close>

lemma keys_Nil [simp]: "keys [] = []"
  by (simp add: keys_def)

lemma keys_Cons [simp]: "keys (kv # d) = fst kv # keys d"
  by (simp add: keys_def)

lemma lookup_setitem:
  "lookup (setitem d k v) k' = (if k = k' then Some v else lookup d k')"
  by (induction d) auto

lemma keys_setitem:
  "keys (setitem d k v) = (if k \<in> set (keys d) then keys d else keys d @ [k])"
  by (induction d) auto

lemma lookup_None_iff: "lookup d k = None \<longleftrightarrow> k \<notin> set (keys d)"
proof (induction d)
  case Nil
  show ?case by simp
next
  case (Cons kv d)
  then show ?case by (cases kv) simp
qed

lemma lookup_in_set: "lookup d k = Some v \<Longrightarrow> (k, v) \<in> set d"
  by (induction d) (auto split: if_splits)

lemma lookup_Some_key: "lookup d k = Some v \<Longrightarrow> k \<in> set (keys d)"
  using lookup_None_iff [of d k] by auto

lemma wf_json_lookup:
  assumes "wf_json (JDict d)" and "lookup d k = Some v"
  shows "wf_json v"
proof -
  from assms(2) have "(k, v) \<in> set d" by (rule lookup_in_set)
  with assms(1) show ?thesis by (auto simp: list_all_iff)
qed

lemma wf_json_get_path:
  "wf_json j \<Longrightarrow> get_path j p = Some v \<Longrightarrow> wf_json v"
proof (induction j p rule: get_path.induct)
  case (1 j)
  then show ?case by simp
next
  case (2 d k ks)
  from "2.prems"(2) obtain x where l: "lookup d k = Some x" and g: "get_path x ks = Some v"
    by (auto split: option.splits)
  from "2.prems"(1) l have "wf_json x" by (rule wf_json_lookup)
  with "2.IH" l g show ?case by simp
qed simp_all

lemma get_path_snoc:
  "get_path j p = Some (JDict m) \<Longrightarrow> get_path j (p @ [k]) = lookup m k"
proof (induction j p rule: get_path.induct)
  case (1 j)
  then show ?case by (simp split: option.splits)
next
  case (2 d k' ks)
  then show ?case by (auto split: option.splits)
qed simp_all

section \<open>Properties of the merge loops\<close>

lemma merge_items_Cons:
  "merge_items result ((key, v) # rest) = merge_items (merge_step result key v) rest"
  by (simp add: merge_step_def)

lemma lookup_merge_step:
  "lookup (merge_step result key v) k =
     (if k = key
      then (case lookup result key of None \<Rightarrow> Some v | Some cur \<Rightarrow> Some (merge_value cur v))
      else lookup result k)"
  by (auto simp: merge_step_def merge_value_def lookup_setitem split: option.splits json.splits)

lemma keys_merge_step:
  "set (keys (merge_step result key v)) = insert key (set (keys result))"
  by (auto simp: merge_step_def keys_setitem split: option.splits json.splits
      dest: lookup_Some_key)

lemma keys_merge_items:
  "set (keys (merge_items result items)) = set (keys result) \<union> set (keys items)"
proof (induction items arbitrary: result)
  case Nil
  then show ?case by simp
next
  case (Cons kv items)
  obtain key val where kv: "kv = (key, val)" by (cases kv)
  show ?case
    unfolding kv merge_items_Cons by (simp add: Cons.IH keys_merge_step)
qed

lemma lookup_merge_items:
  "distinct (keys items) \<Longrightarrow>
   lookup (merge_items result items) k =
     (case lookup items k of
        None \<Rightarrow> lookup result k
      | Some v \<Rightarrow>
          (case lookup result k of None \<Rightarrow> Some v | Some cur \<Rightarrow> Some (merge_value cur v)))"
proof (induction items arbitrary: result)
  case Nil
  then show ?case by simp
next
  case (Cons kv items)
  obtain key val where kv: "kv = (key, val)" by (cases kv)
  from Cons.prems kv have d: "distinct (keys items)" and nk: "key \<notin> set (keys items)"
    by auto
  from nk have ln: "lookup items key = None" by (simp add: lookup_None_iff)
  show ?case
  proof (cases "k = key")
    case True
    with ln have "lookup items k = None" by simp
    then have "lookup (merge_items (merge_step result key val) items) k =
        lookup (merge_step result key val) k"
      by (simp add: Cons.IH [OF d])
    with True show ?thesis
      unfolding kv merge_items_Cons
      by (simp add: lookup_merge_step split: option.splits)
  next
    case False
    then show ?thesis
      unfolding kv merge_items_Cons
      by (simp add: Cons.IH [OF d] lookup_merge_step split: option.splits)
  qed
qed

text \<open>
  On a dictionary without repeated keys the loop of \<^verbatim>\<open>resolve_json_conflict\<close> computes
  what \<^verbatim>\<open>_merge_dict_recursive\<close> computes: the keys still to visit have the value in
  \<^verbatim>\<open>merged_data\<close> that they have in \<^verbatim>\<open>main_data\<close>.
\<close>

lemma merge_top_items_eq:
  "distinct (keys items) \<Longrightarrow>
   \<forall>k \<in> set (keys items). lookup merged k = lookup main_data k \<Longrightarrow>
   merge_top_items main_data merged items = merge_items merged items"
proof (induction items arbitrary: merged)
  case Nil
  then show ?case by simp
next
  case (Cons kv items)
  obtain key val where kv: "kv = (key, val)" by (cases kv)
  from Cons.prems(1) kv have d: "distinct (keys items)" and nk: "key \<notin> set (keys items)"
    by auto
  from Cons.prems(2) kv have same: "lookup main_data key = lookup merged key"
    by simp
  have step: "merge_top_items main_data merged ((key, val) # items) =
      merge_top_items main_data (merge_step merged key val) items"
    by (simp add: merge_step_def same)
  have "\<forall>k \<in> set (keys items). lookup (merge_step merged key val) k = lookup main_data k"
    using Cons.prems(2) nk by (auto simp: lookup_merge_step)
  from Cons.IH [OF d this] show ?case
    unfolding kv step merge_items_Cons .
qed

lemma merged_data_dicts:
  "distinct (keys h) \<Longrightarrow> merged_data (JDict m) (JDict h) = JDict (merge_dict_recursive m h)"
  by (simp add: merged_data_def merge_top_items_eq)

lemma get_path_dict_cases:
  assumes "get_path v ks = Some (JDict a)"
  obtains d where "v = JDict d"
proof (cases ks)
  case Nil
  with assms that show ?thesis by simp
next
  case (Cons k ks')
  with assms that show ?thesis by (cases v) simp_all
qed

lemma get_path_merge_dict_recursive:
  "wf_json (JDict d2) \<Longrightarrow>
   get_path (JDict d1) p = Some (JDict a) \<Longrightarrow>
   get_path (JDict d2) p = Some (JDict b) \<Longrightarrow>
   get_path (JDict (merge_dict_recursive d1 d2)) p = Some (JDict (merge_dict_recursive a b))"
proof (induction p arbitrary: d1 d2)
  case Nil
  then show ?case by simp
next
  case (Cons k ks)
  from Cons.prems(2) obtain v1 where l1: "lookup d1 k = Some v1"
    and g1: "get_path v1 ks = Some (JDict a)"
    by (auto split: option.splits)
  from Cons.prems(3) obtain v2 where l2: "lookup d2 k = Some v2"
    and g2: "get_path v2 ks = Some (JDict b)"
    by (auto split: option.splits)
  from g1 obtain e1 where v1: "v1 = JDict e1" by (rule get_path_dict_cases)
  from g2 obtain e2 where v2: "v2 = JDict e2" by (rule get_path_dict_cases)
  from Cons.prems(1) have dist: "distinct (keys d2)" by (simp add: keys_def)
  from Cons.prems(1) l2 have "wf_json v2" by (rule wf_json_lookup)
  with v2 have wf2: "wf_json (JDict e2)" by simp
  have "lookup (merge_dict_recursive d1 d2) k = Some (JDict (merge_dict_recursive e1 e2))"
    using lookup_merge_items [OF dist, of d1 k] l1 l2 v1 v2
    by (simp add: merge_value_def)
  moreover have "get_path (JDict (merge_dict_recursive e1 e2)) ks =
      Some (JDict (merge_dict_recursive a b))"
    using Cons.IH [OF wf2] g1 g2 v1 v2 by simp
  ultimately show ?case by simp
qed

lemma get_path_merged_data:
  assumes "wf_json D2"
    and "get_path D1 p = Some (JDict a)"
    and "get_path D2 p = Some (JDict b)"
  shows "get_path (merged_data D1 D2) p = Some (JDict (merge_dict_recursive a b))"
proof -
  from assms(2) obtain d1 where D1: "D1 = JDict d1" by (rule get_path_dict_cases)
  from assms(3) obtain d2 where D2: "D2 = JDict d2" by (rule get_path_dict_cases)
  from assms(1) D2 have "distinct (keys d2)" by (simp add: keys_def)
  then have "merged_data D1 D2 = JDict (merge_dict_recursive d1 d2)"
    unfolding D1 D2 by (rule merged_data_dicts)
  with get_path_merge_dict_recursive [of d2 d1 p a b] assms D1 D2
  show ?thesis by simp
qed

section \<open>The code's merge is the specification's\<close>

lemma keys_merge_step_list:
  "keys (merge_step result key v) =
     (if key \<in> set (keys result) then keys result else keys result @ [key])"
  by (auto simp: merge_step_def keys_setitem lookup_None_iff split: option.splits json.splits
      dest: lookup_Some_key)

lemma keys_merge_items_list:
  "distinct (keys items) \<Longrightarrow>
   keys (merge_items result items) =
     keys result @ filter (\<lambda>k. k \<notin> set (keys result)) (keys items)"
proof (induction items arbitrary: result)
  case Nil
  then show ?case by simp
next
  case (Cons kv items)
  obtain key val where kv: "kv = (key, val)" by (cases kv)
  from Cons.prems kv have d: "distinct (keys items)" and nk: "key \<notin> set (keys items)"
    by auto
  have same: "filter (\<lambda>k. k \<noteq> key \<and> k \<notin> set (keys result)) (keys items) =
      filter (\<lambda>k. k \<notin> set (keys result)) (keys items)"
    using nk by (intro filter_cong) auto
  show ?case
    unfolding kv merge_items_Cons
    by (simp add: Cons.IH [OF d] keys_merge_step_list same)
qed

lemma alist_eqI:
  "distinct (keys xs) \<Longrightarrow> keys xs = keys ys \<Longrightarrow> (\<And>k. lookup xs k = lookup ys k) \<Longrightarrow>
   xs = ys"
proof (induction xs arbitrary: ys)
  case Nil
  then show ?case by (simp add: keys_def)
next
  case (Cons x xs)
  from Cons.prems(2) obtain y ys' where ys: "ys = y # ys'" and fy: "fst y = fst x"
    and ks: "keys xs = keys ys'"
    by (cases ys) auto
  from Cons.prems(3) [of "fst x"] ys fy have "snd x = snd y"
    by (cases x; cases y) simp
  with fy have xy: "x = y" by (simp add: prod_eq_iff)
  from Cons.prems(1) have nx: "fst x \<notin> set (keys xs)" and dx: "distinct (keys xs)"
    by auto
  have "lookup xs k = lookup ys' k" for k
  proof (cases "k = fst x")
    case True
    with nx ks show ?thesis by (simp add: lookup_None_iff [THEN iffD2])
  next
    case False
    with Cons.prems(3) [of k] ys xy show ?thesis by (cases x) auto
  qed
  with Cons.IH [OF dx ks] have "xs = ys'" by blast
  with xy ys show ?case by simp
qed

lemma lookup_map_values:
  "lookup (map (\<lambda>kv. (fst kv, f kv)) d) k =
     (case lookup d k of None \<Rightarrow> None | Some v \<Rightarrow> Some (f (k, v)))"
  by (induction d) auto

lemma lookup_append:
  "lookup (xs @ ys) k = (case lookup xs k of None \<Rightarrow> lookup ys k | Some v \<Rightarrow> Some v)"
  by (induction xs) auto

lemma lookup_filter_keys:
  "lookup (filter (\<lambda>kv. P (fst kv)) d) k = (if P k then lookup d k else None)"
  by (induction d) auto

text \<open>
  On parsed documents the value the code gives a key of both sides is the specification's
  merge of the two values, and the whole merge is the specification's.
\<close>

lemma merge_value_spec_merge:
  "wf_json c \<Longrightarrow> wf_json i \<Longrightarrow> merge_value c i = spec_merge c i"
proof (induction c i rule: spec_merge.induct)
  case (1 current incoming)
  let ?f = "\<lambda>kv. case lookup incoming (fst kv) of None \<Rightarrow> snd kv
                 | Some w \<Rightarrow> spec_merge (snd kv) w"
  let ?spec = "map (\<lambda>kv. (fst kv, ?f kv)) current
      @ filter (\<lambda>kv. lookup current (fst kv) = None) incoming"
  from "1.prems" have dc: "distinct (keys current)" and di: "distinct (keys incoming)"
    by (simp_all add: keys_def)
  have kl: "keys (merge_items current incoming) =
      keys current @ filter (\<lambda>k. k \<notin> set (keys current)) (keys incoming)"
    using di by (rule keys_merge_items_list)
  have ks: "keys ?spec = keys current @ filter (\<lambda>k. k \<notin> set (keys current)) (keys incoming)"
    by (simp add: keys_def filter_map comp_def lookup_None_iff [unfolded keys_def])
  have dist: "distinct (keys (merge_items current incoming))"
    unfolding kl using dc di by auto
  have lf: "lookup (filter (\<lambda>kv. lookup current (fst kv) = None) incoming) k =
      (if lookup current k = None then lookup incoming k else None)" for k
    by (rule lookup_filter_keys [where P = "\<lambda>k. lookup current k = None"])
  have look: "lookup (merge_items current incoming) k = lookup ?spec k" for k
  proof (cases "lookup incoming k")
    case None
    then show ?thesis
      by (simp add: lookup_merge_items [OF di] lookup_append lookup_map_values
          lf split: option.splits)
  next
    case (Some w)
    show ?thesis
    proof (cases "lookup current k")
      case None
      with Some show ?thesis
        by (simp add: lookup_merge_items [OF di] lookup_append lookup_map_values lf)
    next
      case (Some v)
      note v = this
      from v have mem: "(k, v) \<in> set current" by (rule lookup_in_set)
      from "1.prems"(1) v have wv: "wf_json v" by (rule wf_json_lookup)
      from "1.prems"(2) \<open>lookup incoming k = Some w\<close> have ww: "wf_json w"
        by (rule wf_json_lookup)
      from "1.IH" [of "(k, v)" w] mem wv ww \<open>lookup incoming k = Some w\<close>
      have "merge_value v w = spec_merge v w" by simp
      with v \<open>lookup incoming k = Some w\<close> show ?thesis
        by (simp add: lookup_merge_items [OF di] lookup_append lookup_map_values)
    qed
  qed
  have "merge_items current incoming = ?spec"
    using dist _ look by (rule alist_eqI) (simp add: kl ks)
  then show ?case by (simp add: merge_value_def)
qed (simp_all add: merge_value_def split: json.splits)

lemma merged_data_spec_merge:
  assumes "wf_json D1" and "wf_json D2"
  shows "merged_data D1 D2 = spec_merge D1 D2"
proof (cases "(\<exists>m. D1 = JDict m) \<and> (\<exists>h. D2 = JDict h)")
  case True
  then obtain m h where D: "D1 = JDict m" "D2 = JDict h" by blast
  from assms(2) D have "distinct (keys h)" by (simp add: keys_def)
  then have "merged_data D1 D2 = merge_value D1 D2"
    unfolding D by (simp add: merged_data_dicts merge_value_def)
  with assms show ?thesis by (simp add: merge_value_spec_merge)
next
  case False
  then show ?thesis
    by (cases D1; cases D2) (simp_all add: merged_data_def)
qed

text \<open>
  The first end-to-end scenario of the specification: every key of the incoming document
  is new or leads to a mapping on both sides, and the merge is the incoming document.
\<close>

lemma scenario_merged:
  "merged_data scenario_current scenario_incoming = (scenario_incoming :: 'f json)"
  by (simp add: merged_data_def scenario_current_def scenario_incoming_def)

section \<open>The claims about the structured merge\<close>

text \<open>
  Claim C1. For documents \<open>D1\<close> (current) and \<open>D2\<close> (incoming) whose roots are mappings, the
  merge contains every key of \<open>D1\<close> and every key of \<open>D2\<close>, and so at every depth at which
  both sides hold mappings: wherever a list of keys \<open>p\<close> leads to a mapping \<open>a\<close> in \<open>D1\<close> and to
  a mapping \<open>b\<close> in \<open>D2\<close> (the empty list for the roots), it leads to a mapping in the merge
  that has every key of \<open>a\<close> and every key of \<open>b\<close>. \<open>D2\<close> is a parsed document: \<open>wf_json\<close>.
\<close>

theorem merge_key_union:
  assumes "wf_json D2"
    and "get_path D1 p = Some (JDict a)"
    and "get_path D2 p = Some (JDict b)"
  shows "\<exists>m. get_path (merged_data D1 D2) p = Some (JDict m) \<and>
             set (keys a) \<union> set (keys b) \<subseteq> set (keys m)"
proof -
  have "get_path (merged_data D1 D2) p = Some (JDict (merge_dict_recursive a b))"
    using assms by (rule get_path_merged_data)
  moreover have "set (keys (merge_dict_recursive a b)) = set (keys a) \<union> set (keys b)"
    by (simp add: keys_merge_items)
  ultimately show ?thesis by simp
qed

theorem merge_key_union_witness:
  "wf_json (scenario_incoming :: unit json) \<and>
   get_path (scenario_current :: unit json) [''app''] = Some (JDict [(''port'', JInt 3000)]) \<and>
   get_path (scenario_incoming :: unit json) [''app'']
     = Some (JDict [(''port'', JInt 3000), (''debug'', JBool True)]) \<and>
   (\<exists>m. get_path (merged_data scenario_current (scenario_incoming :: unit json)) [''app'']
           = Some (JDict m) \<and>
        set (keys [(''port'', JInt 3000 :: unit json)])
          \<union> set (keys [(''port'', JInt 3000 :: unit json), (''debug'', JBool True)])
          \<subseteq> set (keys m))"
proof -
  have w: "wf_json (scenario_incoming :: unit json)"
    by (simp add: scenario_incoming_def)
  have g1: "get_path (scenario_current :: unit json) [''app'']
      = Some (JDict [(''port'', JInt 3000)])"
    by (simp add: scenario_current_def)
  have g2: "get_path (scenario_incoming :: unit json) [''app'']
      = Some (JDict [(''port'', JInt 3000), (''debug'', JBool True)])"
    by (simp add: scenario_incoming_def)
  from merge_key_union [OF w g1 g2] w g1 g2 show ?thesis by blast
qed

text \<open>
  Claim C2. For a key \<open>k\<close> present in both documents, with value \<open>v1\<close> in the current and \<open>v2\<close>
  in the incoming one: when both values are mappings the merged value at \<open>k\<close> is the merge
  of the two as the specification words it (\<open>spec_merge\<close>: every key of either, the rule
  applied again below), and otherwise it is \<open>v1\<close>, the incoming value being dropped. The
  rule is the same at every depth: \<open>p\<close> leads to the two mappings \<open>a\<close> and \<open>b\<close> that hold
  \<open>k\<close>, and is empty for the roots. Both documents are parsed documents: \<open>wf_json\<close>.
\<close>

theorem merge_common_key:
  assumes "wf_json D1" and "wf_json D2"
    and "get_path D1 p = Some (JDict a)"
    and "get_path D2 p = Some (JDict b)"
    and "lookup a k = Some v1"
    and "lookup b k = Some v2"
  shows "get_path (merged_data D1 D2) (p @ [k]) =
           Some (case (v1, v2) of
                   (JDict x, JDict y) \<Rightarrow> spec_merge (JDict x) (JDict y)
                 | _ \<Rightarrow> v1)"
proof -
  have g: "get_path (merged_data D1 D2) p = Some (JDict (merge_dict_recursive a b))"
    using assms(2-4) by (rule get_path_merged_data)
  from assms(1,3) have wa: "wf_json (JDict a)" by (rule wf_json_get_path)
  from assms(2,4) have wb: "wf_json (JDict b)" by (rule wf_json_get_path)
  from wb have "distinct (keys b)" by (simp add: keys_def)
  from lookup_merge_items [OF this, of a k] assms(5,6)
  have l: "lookup (merge_dict_recursive a b) k = Some (merge_value v1 v2)"
    by simp
  from wa assms(5) have w1: "wf_json v1" by (rule wf_json_lookup)
  from wb assms(6) have w2: "wf_json v2" by (rule wf_json_lookup)
  have "merge_value v1 v2 = spec_merge v1 v2"
    using w1 w2 by (rule merge_value_spec_merge)
  also have "\<dots> = (case (v1, v2) of
                   (JDict x, JDict y) \<Rightarrow> spec_merge (JDict x) (JDict y)
                 | _ \<Rightarrow> v1)"
    by (cases v1; cases v2) simp_all
  finally show ?thesis using get_path_snoc [OF g, of k] l by simp
qed

theorem merge_common_key_witness:
  "wf_json (scenario_current :: unit json) \<and> wf_json (scenario_incoming :: unit json) \<and>
   lookup [(''app'', JDict [(''port'', JInt 3000)]),
           (''database'', JDict [(''host'', JStr ''localhost'' :: unit json)])] ''app''
     = Some (JDict [(''port'', JInt 3000)]) \<and>
   get_path (merged_data scenario_current (scenario_incoming :: unit json)) ([] @ [''app''])
     = Some (JDict [(''port'', JInt 3000), (''debug'', JBool True)]) \<and>
   wf_json (versions_current :: unit json) \<and> wf_json (versions_incoming :: unit json) \<and>
   get_path (merged_data versions_current (versions_incoming :: unit json)) ([] @ [''version''])
     = Some (JStr ''1.0.1'')"
proof -
  have w1: "wf_json (scenario_current :: unit json)"
    by (simp add: scenario_current_def)
  have w2: "wf_json (scenario_incoming :: unit json)"
    by (simp add: scenario_incoming_def)
  have g1: "get_path (scenario_current :: unit json) []
     = Some (JDict [(''app'', JDict [(''port'', JInt 3000)]),
                    (''database'', JDict [(''host'', JStr ''localhost'')])])"
    by (simp add: scenario_current_def)
  have g2: "get_path (scenario_incoming :: unit json) []
     = Some (JDict [(''app'', JDict [(''port'', JInt 3000), (''debug'', JBool True)]),
            (''database'', JDict [(''host'', JStr ''localhost''), (''ssl'', JBool True)]),
            (''features'', JDict [(''logging'', JBool True)])])"
    by (simp add: scenario_incoming_def)
  have l1: "lookup [(''app'', JDict [(''port'', JInt 3000)]),
           (''database'', JDict [(''host'', JStr ''localhost'' :: unit json)])] ''app''
     = Some (JDict [(''port'', JInt 3000)])"
    by simp
  have l2: "lookup [(''app'', JDict [(''port'', JInt 3000), (''debug'', JBool True)]),
            (''database'', JDict [(''host'', JStr ''localhost''), (''ssl'', JBool True)]),
            (''features'', JDict [(''logging'', JBool True :: unit json)])] ''app''
     = Some (JDict [(''port'', JInt 3000), (''debug'', JBool True)])"
    by simp
  have v1: "wf_json (versions_current :: unit json)"
    by (simp add: versions_current_def)
  have v2: "wf_json (versions_incoming :: unit json)"
    by (simp add: versions_incoming_def)
  have h1: "get_path (versions_current :: unit json) []
     = Some (JDict [(''version'', JStr ''1.0.1''),
                    (''engines'', JDict [(''node'', JStr ''>=16'')])])"
    by (simp add: versions_current_def)
  have h2: "get_path (versions_incoming :: unit json) []
     = Some (JDict [(''version'', JStr ''1.1.0''),
                    (''scripts'', JDict [(''start'', JStr ''x'')])])"
    by (simp add: versions_incoming_def)
  have m1: "lookup [(''version'', JStr ''1.0.1''),
                    (''engines'', JDict [(''node'', JStr ''>=16'' :: unit json)])] ''version''
     = Some (JStr ''1.0.1'')"
    by simp
  have m2: "lookup [(''version'', JStr ''1.1.0''),
                    (''scripts'', JDict [(''start'', JStr ''x'' :: unit json)])] ''version''
     = Some (JStr ''1.1.0'')"
    by simp
  from merge_common_key [OF w1 w2 g1 g2 l1 l2] merge_common_key [OF v1 v2 h1 h2 m1 m2]
    w1 w2 l1 v1 v2
  show ?thesis by simp
qed

text \<open>
  Claim C8. Merging a mapping-rooted document with the empty incoming document gives the
  document back.
\<close>

theorem merge_empty_incoming:
  "merged_data (JDict d) (JDict []) = JDict d"
  by (simp add: merged_data_def)

section \<open>The choice of a strategy: properties\<close>

lemma of_char_lower_char:
  "(of_char (lower_char c) :: nat) =
     (if 65 \<le> (of_char c :: nat) \<and> (of_char c :: nat) \<le> 90 then of_char c + 32 else of_char c)"
  by (cases c) (auto simp: lower_char_def)

lemma endswith_suffix: "endswith s t \<longleftrightarrow> suffix t s"
proof
  assume "endswith s t"
  then have "drop (length s - length t) s = t" by (simp add: endswith_def)
  then have "s = take (length s - length t) s @ t" by (metis append_take_drop_id)
  then show "suffix t s" by (rule suffixI)
next
  assume "suffix t s"
  then obtain u where "s = u @ t" by (auto simp: suffix_def)
  then show "endswith s t" by (simp add: endswith_def)
qed


lemma suffix_lower: "suffix t s \<Longrightarrow> suffix (lower t) (lower s)"
  by (auto simp: suffix_def lower_def)

lemma suffix_final_segment: "suffix (final_segment path) path"
proof -
  have "prefix (takeWhile (\<lambda>c. c \<noteq> CHR ''/'') (rev path)) (rev path)"
    by (metis prefixI takeWhile_dropWhile_id)
  then show ?thesis
    unfolding final_segment_def by (metis suffix_to_prefix rev_rev_ident)
qed

text \<open>
  What the test of the source accepts: the paths whose lower-cased form ends with
  \<^verbatim>\<open>readme.md\<close>. Every path whose final segment is \<^verbatim>\<open>readme.md\<close>, in any case and at
  any depth, is among them, and the test comes before the one for structured files.
\<close>

lemma classify_readme_suffix:
  "(classify path = PreserveIncoming \<longleftrightarrow> suffix ''readme.md'' (lower path)) \<and>
   (spec_is_documentation path \<longrightarrow> classify path = PreserveIncoming) \<and>
   (suffix ''readme.md'' (lower path) \<and> sublist ''config'' (lower path)
      \<longrightarrow> classify path = PreserveIncoming)"
proof -
  have iff: "classify path = PreserveIncoming \<longleftrightarrow> suffix ''readme.md'' (lower path)"
    by (simp add: classify_def endswith_suffix)
  have "suffix ''readme.md'' (lower path)" if "spec_is_documentation path"
  proof -
    have "suffix (lower (final_segment path)) (lower path)"
      using suffix_final_segment by (rule suffix_lower)
    with that show ?thesis by (simp add: spec_is_documentation_def)
  qed
  with iff show ?thesis by blast
qed

lemma strip_examples:
  "strip ([CHR 0xC2, CHR 0xA0] @ '' a b '' @ [CHR 0x0A, CHR 0xE2, CHR 0x80, CHR 0xA8]) = ''a b''"
  "strip [] = []"
  "strip ''/repo'' = ''/repo''"
  by (simp_all add: strip_def space_codes_def)



section \<open>The resolver: properties\<close>

text \<open>The \<^verbatim>\<open>if\<close> and the \<^verbatim>\<open>elif\<close> of the loop body choose as \<open>classify\<close> does.\<close>

lemma attempt_classified_classify:
  "attempt_classified E self filepath p =
     (case classify filepath of
        PreserveIncoming \<Rightarrow> resolve_readme_conflict E self filepath p
      | StructuredMerge \<Rightarrow>
          (case resolve_json_conflict E self filepath p of (resolved, p1) \<Rightarrow> (Inr resolved, p1))
      | PreferCurrent \<Rightarrow> (Inr False, p))"
  by (simp add: attempt_classified_def classify_def)

lemmas resolver_defs =
  main_def ConflictResolver_def get_repo_root_def resolve_all_conflicts_def
  detect_conflicts_def resolve_files.simps resolve_file_def attempt_classified_def
  resolve_readme_conflict_def resolve_json_conflict_def resolve_default_conflict_def
  commit_resolution_def run_git_command_def subprocess_run_def open_write_def emit_def

lemmas sample_defs =
  sample_env_def sample_run_def show_answer_def answer_def notes_at_def readme_at_def

lemmas string_defs =
  endswith_def lower_def lower_char_def strip_def space_codes_def path_join_def

text \<open>
  Claim C3 gives the documentation strategy to a path exactly when its final segment is
  \<^verbatim>\<open>readme.md\<close> in any case, and the source's own words name that one file: the rules
  of the module (lines 7 to 9), the docstring of \<^verbatim>\<open>resolve_readme_conflict\<close>, the comment
  at line 174 and the messages it prints. The test at lines 59 and 175 looks at the end of
  the whole path instead. In the run below the final segment is \<^verbatim>\<open>old-readme.md\<close>: the
  path is given the documentation strategy and the file is resolved with the content of
  the incoming revision, where the rule for every other file takes the current one's.
\<close>

theorem old_readme_takes_incoming:
  "\<not> spec_is_documentation ''docs/old-readme.md'' \<and>
   classify ''docs/old-readme.md'' = PreserveIncoming \<and>
   resolve_file old_readme_env sample_self ''docs/old-readme.md'' start =
     (Inr True,
      \<lparr>world = [''docs/old-readme.md''],
       trace = [Print (ResolvingReadme ''docs/old-readme.md''),
                Run [''git'', ''show'', ''MERGE_HEAD:docs/old-readme.md''] (Some ''/repo''),
                Write ''/repo/docs/old-readme.md'' ''incoming'',
                Run [''git'', ''add'', ''docs/old-readme.md''] (Some ''/repo''),
                Print (PreservedReadme ''docs/old-readme.md'')]\<rparr>)"
proof -
  have "\<not> spec_is_documentation ''docs/old-readme.md''"
    by (simp add: spec_is_documentation_def final_segment_def lower_def lower_char_def)
  moreover have "classify ''docs/old-readme.md'' = PreserveIncoming"
    by (simp add: classify_def endswith_def lower_def lower_char_def)
  moreover have "resolve_file old_readme_env sample_self ''docs/old-readme.md'' start =
     (Inr True,
      \<lparr>world = [''docs/old-readme.md''],
       trace = [Print (ResolvingReadme ''docs/old-readme.md''),
                Run [''git'', ''show'', ''MERGE_HEAD:docs/old-readme.md''] (Some ''/repo''),
                Write ''/repo/docs/old-readme.md'' ''incoming'',
                Run [''git'', ''add'', ''docs/old-readme.md''] (Some ''/repo''),
                Print (PreservedReadme ''docs/old-readme.md'')]\<rparr>)"
    by (simp add: old_readme_env_def old_readme_at_def sample_self_def start_def
        resolve_file_def attempt_classified_def resolve_readme_conflict_def
        run_git_command_def subprocess_run_def open_write_def emit_def
        sample_env_def sample_run_def show_answer_def answer_def
        endswith_def lower_def lower_char_def path_join_def)
  ultimately show ?thesis by blast
qed

text \<open>
  Claim C4. When the strategy chosen for a path does not resolve it, the default
  strategy is run on the same path, from the state the failed strategy left: for a
  documentation path whose read at the incoming revision exits non-zero (the path is
  absent there); for a structured path with a read at either revision exiting non-zero;
  for a structured path whose content at either revision does not parse. In particular a
  documentation path absent from the incoming revision and readable at the current one
  is resolved: the content at the current revision is written to the working file, the
  path is staged.
\<close>

theorem fallback_to_default:
  "(classify filepath = PreserveIncoming \<and>
    run_git_command E self [''git'', ''show'', ''MERGE_HEAD:'' @ filepath]
      (emit (ResolvingReadme filepath) p) = (incoming, p1) \<and>
    returncode incoming \<noteq> 0
    \<longrightarrow> resolve_file E self filepath p = resolve_default_conflict E self filepath p1) \<and>
   (classify filepath = StructuredMerge \<and>
    run_git_command E self [''git'', ''show'', ''HEAD:'' @ filepath]
      (emit (ResolvingJson filepath) p) = (main_result, q1) \<and>
    run_git_command E self [''git'', ''show'', ''MERGE_HEAD:'' @ filepath] q1 = (head_result, q2) \<and>
    (returncode main_result \<noteq> 0 \<or> returncode head_result \<noteq> 0)
    \<longrightarrow> resolve_file E self filepath p = resolve_default_conflict E self filepath q2) \<and>
   (classify filepath = StructuredMerge \<and>
    run_git_command E self [''git'', ''show'', ''HEAD:'' @ filepath]
      (emit (ResolvingJson filepath) p) = (main_result, q1) \<and>
    run_git_command E self [''git'', ''show'', ''MERGE_HEAD:'' @ filepath] q1 = (head_result, q2) \<and>
    returncode main_result = 0 \<and> returncode head_result = 0 \<and>
    (loads E (stdout main_result) = None \<or> loads E (stdout head_result) = None)
    \<longrightarrow> resolve_file E self filepath p =
          resolve_default_conflict E self filepath
            (emit (FailedMergeJson filepath JSONDecodeError) q2)) \<and>
   (classify filepath = PreserveIncoming \<and>
    run_git_command E self [''git'', ''show'', ''MERGE_HEAD:'' @ filepath]
      (emit (ResolvingReadme filepath) p) = (incoming, p1) \<and>
    returncode incoming \<noteq> 0 \<and>
    run_git_command E self [''git'', ''show'', ''HEAD:'' @ filepath]
      (emit (ResolvingDefault filepath) p1) = (current, p2) \<and>
    returncode current = 0 \<and>
    open_write E (path_join (repo_root self) filepath) (stdout current) p2 = Inr p3 \<and>
    run_git_command E self [''git'', ''add'', filepath] p3 = (added, p4)
    \<longrightarrow> resolve_file E self filepath p = (Inr True, emit (ResolvedDefault filepath) p4) \<and>
        trace p3 = trace p2 @ [Write (path_join (repo_root self) filepath) (stdout current)])"
proof -
  have readme: "resolve_file E self filepath p = resolve_default_conflict E self filepath p1"
    if "classify filepath = PreserveIncoming"
      and "run_git_command E self [''git'', ''show'', ''MERGE_HEAD:'' @ filepath]
             (emit (ResolvingReadme filepath) p) = (incoming, p1)"
      and "returncode incoming \<noteq> 0"
  proof -
    from that(1) have "endswith (lower filepath) ''readme.md''"
      by (simp add: classify_def split: if_splits)
    with that(2,3) show ?thesis
      by (simp add: resolve_file_def attempt_classified_def resolve_readme_conflict_def)
  qed
  have is_json: "\<not> endswith (lower filepath) ''readme.md'' \<and>
      (endswith filepath ''.json'' \<or> contains ''config'' (lower filepath))"
    if "classify filepath = StructuredMerge"
    using that by (simp add: classify_def split: if_splits)
  have unread: "resolve_file E self filepath p = resolve_default_conflict E self filepath q2"
    if "classify filepath = StructuredMerge"
      and "run_git_command E self [''git'', ''show'', ''HEAD:'' @ filepath]
             (emit (ResolvingJson filepath) p) = (main_result, q1)"
      and "run_git_command E self [''git'', ''show'', ''MERGE_HEAD:'' @ filepath] q1
             = (head_result, q2)"
      and "returncode main_result \<noteq> 0 \<or> returncode head_result \<noteq> 0"
    using is_json [OF that(1)] that(2-4)
    by (auto simp add: resolve_file_def attempt_classified_def resolve_json_conflict_def)
  have unparsed: "resolve_file E self filepath p =
        resolve_default_conflict E self filepath
          (emit (FailedMergeJson filepath JSONDecodeError) q2)"
    if "classify filepath = StructuredMerge"
      and "run_git_command E self [''git'', ''show'', ''HEAD:'' @ filepath]
             (emit (ResolvingJson filepath) p) = (main_result, q1)"
      and "run_git_command E self [''git'', ''show'', ''MERGE_HEAD:'' @ filepath] q1
             = (head_result, q2)"
      and "returncode main_result = 0" and "returncode head_result = 0"
      and "loads E (stdout main_result) = None \<or> loads E (stdout head_result) = None"
    using is_json [OF that(1)] that(2-6)
    by (auto simp add: resolve_file_def attempt_classified_def resolve_json_conflict_def
        split: option.splits)
  have missing: "resolve_file E self filepath p = (Inr True, emit (ResolvedDefault filepath) p4) \<and>
        trace p3 = trace p2 @ [Write (path_join (repo_root self) filepath) (stdout current)]"
    if "classify filepath = PreserveIncoming"
      and "run_git_command E self [''git'', ''show'', ''MERGE_HEAD:'' @ filepath]
             (emit (ResolvingReadme filepath) p) = (incoming, p1)"
      and "returncode incoming \<noteq> 0"
      and "run_git_command E self [''git'', ''show'', ''HEAD:'' @ filepath]
             (emit (ResolvingDefault filepath) p1) = (current, p2)"
      and "returncode current = 0"
      and "open_write E (path_join (repo_root self) filepath) (stdout current) p2 = Inr p3"
      and "run_git_command E self [''git'', ''add'', filepath] p3 = (added, p4)"
  proof -
    have "resolve_file E self filepath p = resolve_default_conflict E self filepath p1"
      using that(1-3) by (rule readme)
    also have "\<dots> = (Inr True, emit (ResolvedDefault filepath) p4)"
      using that(4-7) by (simp add: resolve_default_conflict_def)
    finally have a: "resolve_file E self filepath p = (Inr True, emit (ResolvedDefault filepath) p4)" .
    from that(6) have "trace p3 = trace p2 @ [Write (path_join (repo_root self) filepath) (stdout current)]"
      by (auto simp: open_write_def split: option.splits)
    with a show ?thesis by simp
  qed
  from readme unread unparsed missing show ?thesis by blast
qed

theorem fallback_to_default_witness:
  "classify ''README.md'' = PreserveIncoming \<and>
   returncode (fst (run_git_command readme_env sample_self
      [''git'', ''show'', ''MERGE_HEAD:'' @ ''README.md'']
      (emit (ResolvingReadme ''README.md'') start))) \<noteq> 0 \<and>
   resolve_file readme_env sample_self ''README.md'' start =
     (Inr True,
      \<lparr>world = [''README.md''],
       trace = [Print (ResolvingReadme ''README.md''),
                Run [''git'', ''show'', ''MERGE_HEAD:README.md''] (Some ''/repo''),
                Print (ResolvingDefault ''README.md''),
                Run [''git'', ''show'', ''HEAD:README.md''] (Some ''/repo''),
                Write ''/repo/README.md'' ''current'',
                Run [''git'', ''add'', ''README.md''] (Some ''/repo''),
                Print (ResolvedDefault ''README.md'')]\<rparr>) \<and>
   classify ''config.json'' = StructuredMerge \<and>
   returncode (fst (run_git_command unread_env sample_self
      [''git'', ''show'', ''HEAD:'' @ ''config.json'']
      (emit (ResolvingJson ''config.json'') start))) \<noteq> 0 \<and>
   resolve_file unread_env sample_self ''config.json'' start =
     resolve_default_conflict unread_env sample_self ''config.json''
       \<lparr>world = [],
        trace = [Print (ResolvingJson ''config.json''),
                 Run [''git'', ''show'', ''HEAD:config.json''] (Some ''/repo''),
                 Run [''git'', ''show'', ''MERGE_HEAD:config.json''] (Some ''/repo'')]\<rparr> \<and>
   loads unparsed_env ''{'' = None \<and>
   resolve_file unparsed_env sample_self ''config.json'' start =
     resolve_default_conflict unparsed_env sample_self ''config.json''
       \<lparr>world = [],
        trace = [Print (ResolvingJson ''config.json''),
                 Run [''git'', ''show'', ''HEAD:config.json''] (Some ''/repo''),
                 Run [''git'', ''show'', ''MERGE_HEAD:config.json''] (Some ''/repo''),
                 Print (FailedMergeJson ''config.json'' JSONDecodeError)]\<rparr>"
proof -
  let ?p1 = "\<lparr>world = [] :: string list,
       trace = [Print (ResolvingReadme ''README.md''),
                Run [''git'', ''show'', ''MERGE_HEAD:README.md''] (Some ''/repo'')]\<rparr>"
  let ?p2 = "\<lparr>world = [] :: string list,
       trace = [Print (ResolvingReadme ''README.md''),
                Run [''git'', ''show'', ''MERGE_HEAD:README.md''] (Some ''/repo''),
                Print (ResolvingDefault ''README.md''),
                Run [''git'', ''show'', ''HEAD:README.md''] (Some ''/repo'')]\<rparr>"
  let ?p3 = "\<lparr>world = [] :: string list,
       trace = [Print (ResolvingReadme ''README.md''),
                Run [''git'', ''show'', ''MERGE_HEAD:README.md''] (Some ''/repo''),
                Print (ResolvingDefault ''README.md''),
                Run [''git'', ''show'', ''HEAD:README.md''] (Some ''/repo''),
                Write ''/repo/README.md'' ''current'']\<rparr>"
  let ?p4 = "\<lparr>world = [''README.md''],
       trace = [Print (ResolvingReadme ''README.md''),
                Run [''git'', ''show'', ''MERGE_HEAD:README.md''] (Some ''/repo''),
                Print (ResolvingDefault ''README.md''),
                Run [''git'', ''show'', ''HEAD:README.md''] (Some ''/repo''),
                Write ''/repo/README.md'' ''current'',
                Run [''git'', ''add'', ''README.md''] (Some ''/repo'')]\<rparr>"
  let ?q1 = "\<lparr>world = [] :: string list,
        trace = [Print (ResolvingJson ''config.json''),
                 Run [''git'', ''show'', ''HEAD:config.json''] (Some ''/repo'')]\<rparr>"
  let ?q2 = "\<lparr>world = [] :: string list,
        trace = [Print (ResolvingJson ''config.json''),
                 Run [''git'', ''show'', ''HEAD:config.json''] (Some ''/repo''),
                 Run [''git'', ''show'', ''MERGE_HEAD:config.json''] (Some ''/repo'')]\<rparr>"
  have c1: "classify ''README.md'' = PreserveIncoming"
    by (simp add: classify_def string_defs)
  have r1: "run_git_command readme_env sample_self [''git'', ''show'', ''MERGE_HEAD:'' @ ''README.md'']
      (emit (ResolvingReadme ''README.md'') start) = (answer 128 [], ?p1)"
    by (simp add: readme_env_def sample_self_def start_def run_git_command_def
        subprocess_run_def emit_def sample_defs)
  have n1: "returncode (answer 128 []) \<noteq> 0"
    by (simp add: answer_def)
  have r2: "run_git_command readme_env sample_self [''git'', ''show'', ''HEAD:'' @ ''README.md'']
      (emit (ResolvingDefault ''README.md'') ?p1) = (answer 0 ''current'', ?p2)"
    by (simp add: readme_env_def sample_self_def run_git_command_def
        subprocess_run_def emit_def sample_defs)
  have z2: "returncode (answer 0 ''current'') = 0"
    by (simp add: answer_def)
  have w3: "open_write readme_env (path_join (repo_root sample_self) ''README.md'')
      (stdout (answer 0 ''current'')) ?p2 = Inr ?p3"
    by (simp add: readme_env_def sample_self_def open_write_def sample_defs path_join_def)
  have r4: "run_git_command readme_env sample_self [''git'', ''add'', ''README.md''] ?p3
      = (answer 0 [], ?p4)"
    by (simp add: readme_env_def sample_self_def run_git_command_def
        subprocess_run_def sample_defs)
  have c2: "classify ''config.json'' = StructuredMerge"
    by (simp add: classify_def string_defs)
  have u1: "run_git_command unread_env sample_self [''git'', ''show'', ''HEAD:'' @ ''config.json'']
      (emit (ResolvingJson ''config.json'') start) = (answer 128 [], ?q1)"
    by (simp add: unread_env_def sample_self_def start_def run_git_command_def
        subprocess_run_def emit_def sample_defs)
  have u2: "run_git_command unread_env sample_self
      [''git'', ''show'', ''MERGE_HEAD:'' @ ''config.json''] ?q1 = (answer 128 [], ?q2)"
    by (simp add: unread_env_def sample_self_def run_git_command_def
        subprocess_run_def sample_defs)
  have v1: "run_git_command unparsed_env sample_self [''git'', ''show'', ''HEAD:'' @ ''config.json'']
      (emit (ResolvingJson ''config.json'') start) = (answer 0 ''{'', ?q1)"
    by (simp add: unparsed_env_def sample_self_def start_def run_git_command_def
        subprocess_run_def emit_def sample_defs config_at_def)
  have v2: "run_git_command unparsed_env sample_self
      [''git'', ''show'', ''MERGE_HEAD:'' @ ''config.json''] ?q1 = (answer 0 ''{'', ?q2)"
    by (simp add: unparsed_env_def sample_self_def run_git_command_def
        subprocess_run_def sample_defs config_at_def)
  have z3: "returncode (answer 0 ''{'') = 0"
    by (simp add: answer_def)
  have l3: "loads unparsed_env (stdout (answer 0 ''{'')) = None"
    by (simp add: unparsed_env_def sample_env_def)
  have l4: "loads unparsed_env ''{'' = None"
    by (simp add: unparsed_env_def sample_env_def)
  note a = fallback_to_default [of "''README.md''" readme_env sample_self start
      "answer 128 []" ?p1 _ _ _ _ "answer 0 ''current''" ?p2 ?p3 "answer 0 []" ?p4]
  note b = fallback_to_default [of "''config.json''" unread_env sample_self start
      _ _ "answer 128 []" ?q1 "answer 128 []" ?q2]
  note c = fallback_to_default [of "''config.json''" unparsed_env sample_self start
      _ _ "answer 0 ''{''" ?q1 "answer 0 ''{''" ?q2]
  from a c1 r1 n1 r2 z2 w3 r4
  have A: "resolve_file readme_env sample_self ''README.md'' start =
      (Inr True, emit (ResolvedDefault ''README.md'') ?p4)"
    by blast
  from b c2 u1 u2 n1
  have B: "resolve_file unread_env sample_self ''config.json'' start =
     resolve_default_conflict unread_env sample_self ''config.json'' ?q2"
    by blast
  from c c2 v1 v2 z3 l3
  have C: "resolve_file unparsed_env sample_self ''config.json'' start =
     resolve_default_conflict unparsed_env sample_self ''config.json''
       (emit (FailedMergeJson ''config.json'' JSONDecodeError) ?q2)"
    by blast
  have h1: "returncode (fst (run_git_command readme_env sample_self
      [''git'', ''show'', ''MERGE_HEAD:'' @ ''README.md'']
      (emit (ResolvingReadme ''README.md'') start))) \<noteq> 0"
    unfolding r1 by (simp add: answer_def)
  have h2: "returncode (fst (run_git_command unread_env sample_self
      [''git'', ''show'', ''HEAD:'' @ ''config.json'']
      (emit (ResolvingJson ''config.json'') start))) \<noteq> 0"
    unfolding u1 by (simp add: answer_def)
  from A B C c1 c2 l4 h1 h2 show ?thesis
    by (simp add: emit_def)
qed

text \<open>
  Claim C5 asks for a non-zero exit status when every conflict is resolved and the commit
  fails. The run below is such a run: the one conflict is resolved and staged,
  \<^verbatim>\<open>git commit\<close> exits with status 1, \<^verbatim>\<open>commit_resolution\<close> reports the failure, and
  \<^verbatim>\<open>main\<close> still exits with status 0.
\<close>

theorem commit_failure_exit:
  "main commit_fails_env [] =
     (0, \<lparr>world = [''notes.txt''],
          trace = [Print Banner,
                   Run [''git'', ''rev-parse'', ''--show-toplevel''] None,
                   Run [''git'', ''diff'', ''--name-only'', ''--diff-filter=U''] (Some ''/repo''),
                   Print (FoundConflicts 1),
                   Print (ConflictLine ''notes.txt''),
                   Print (ResolvingDefault ''notes.txt''),
                   Run [''git'', ''show'', ''HEAD:notes.txt''] (Some ''/repo''),
                   Write ''/repo/notes.txt'' ''current'',
                   Run [''git'', ''add'', ''notes.txt''] (Some ''/repo''),
                   Print (ResolvedDefault ''notes.txt''),
                   Print (ResolvedCount 1 1),
                   Run [''git'', ''diff'', ''--cached'', ''--name-only''] (Some ''/repo''),
                   Run [''git'', ''commit'', ''-m'',
                        ''Auto-resolve merge conflicts following WebQx rules''] (Some ''/repo''),
                   Print (FailedCommit []),
                   Print AllResolved]\<rparr>)"
proof -
  have init: "ConflictResolver commit_fails_env (emit Banner \<lparr>world = [], trace = []\<rparr>) =
      (Inr sample_self,
       \<lparr>world = [],
        trace = [Print Banner, Run [''git'', ''rev-parse'', ''--show-toplevel''] None]\<rparr>)"
    by (simp add: commit_fails_env_def sample_self_def resolver_defs sample_defs string_defs)
  have det: "detect_conflicts commit_fails_env sample_self p =
      ([''notes.txt''], sample_self\<lparr>conflicts := [''notes.txt'']\<rparr>,
       \<lparr>world = world p,
        trace = trace p @ [Run [''git'', ''diff'', ''--name-only'', ''--diff-filter=U'']
                            (Some ''/repo'')]\<rparr>)" for p
    by (simp add: commit_fails_env_def sample_self_def resolver_defs sample_defs string_defs
        Let_def)
  have one: "resolve_file commit_fails_env (sample_self\<lparr>conflicts := [''notes.txt'']\<rparr>)
        ''notes.txt'' p =
      (Inr True,
       \<lparr>world = world p @ [''notes.txt''],
        trace = trace p @
           [Print (ResolvingDefault ''notes.txt''),
            Run [''git'', ''show'', ''HEAD:notes.txt''] (Some ''/repo''),
            Write ''/repo/notes.txt'' ''current'',
            Run [''git'', ''add'', ''notes.txt''] (Some ''/repo''),
            Print (ResolvedDefault ''notes.txt'')]\<rparr>)" for p
    by (simp add: commit_fails_env_def sample_self_def resolver_defs sample_defs string_defs)
  have commit: "commit_resolution commit_fails_env (sample_self\<lparr>conflicts := [''notes.txt'']\<rparr>)
        m \<lparr>world = [''notes.txt''], trace = t\<rparr> =
      (False,
       \<lparr>world = [''notes.txt''],
        trace = t @
           [Run [''git'', ''diff'', ''--cached'', ''--name-only''] (Some ''/repo''),
            Run [''git'', ''commit'', ''-m'', m] (Some ''/repo''),
            Print (FailedCommit [])]\<rparr>)" for m t
    by (simp add: commit_fails_env_def sample_self_def resolver_defs sample_defs string_defs)
  have all: "resolve_all_conflicts commit_fails_env sample_self
        \<lparr>world = [],
         trace = [Print Banner, Run [''git'', ''rev-parse'', ''--show-toplevel''] None]\<rparr> =
      (Inr True, sample_self\<lparr>conflicts := [''notes.txt'']\<rparr>,
       \<lparr>world = [''notes.txt''],
        trace = [Print Banner,
                 Run [''git'', ''rev-parse'', ''--show-toplevel''] None,
                 Run [''git'', ''diff'', ''--name-only'', ''--diff-filter=U''] (Some ''/repo''),
                 Print (FoundConflicts 1),
                 Print (ConflictLine ''notes.txt''),
                 Print (ResolvingDefault ''notes.txt''),
                 Run [''git'', ''show'', ''HEAD:notes.txt''] (Some ''/repo''),
                 Write ''/repo/notes.txt'' ''current'',
                 Run [''git'', ''add'', ''notes.txt''] (Some ''/repo''),
                 Print (ResolvedDefault ''notes.txt''),
                 Print (ResolvedCount 1 1)]\<rparr>)"
    by (simp add: resolve_all_conflicts_def det one emit_def)
  show ?thesis
    unfolding main_def init by (simp add: all commit emit_def)
qed

text \<open>
  Claim C6, as the code has it. When \<^verbatim>\<open>git rev-parse --show-toplevel\<close> exits with a
  non-zero status (the program is not inside a repository), \<^verbatim>\<open>main\<close> exits with
  status 1, after the banner, that one command and the report of the error, and before
  any conflict is looked for.
\<close>

theorem outside_repository_exit:
  assumes "run E [''git'', ''rev-parse'', ''--show-toplevel''] None w = (failed, w1)"
    and "returncode failed \<noteq> 0"
  shows "main E w =
           (1, \<lparr>world = w1,
                trace = [Print Banner,
                         Run [''git'', ''rev-parse'', ''--show-toplevel''] None,
                         Print (ErrorDuring (RuntimeError ''Not in a git repository''))]\<rparr>)"
  using assms by (simp add: resolver_defs)

theorem outside_repository_exit_witness:
  "run outside_env [''git'', ''rev-parse'', ''--show-toplevel''] None [] = (answer 128 [], []) \<and>
   returncode (answer 128 []) \<noteq> 0 \<and>
   main outside_env [] =
     (1, \<lparr>world = [],
          trace = [Print Banner,
                   Run [''git'', ''rev-parse'', ''--show-toplevel''] None,
                   Print (ErrorDuring (RuntimeError ''Not in a git repository''))]\<rparr>)"
proof -
  have a: "run outside_env [''git'', ''rev-parse'', ''--show-toplevel''] None []
      = (answer 128 [], [])"
    by (simp add: outside_env_def sample_env_def sample_run_def)
  have b: "returncode (answer 128 []) \<noteq> 0"
    by (simp add: answer_def)
  from outside_repository_exit [OF a b] a b show ?thesis by simp
qed

theorem outside_repository_exit_counterexample:
  "returncode (fst (run outside_env [''git'', ''rev-parse'', ''--show-toplevel''] None [])) \<noteq> 0 \<and>
   fst (main outside_env []) \<noteq> 0"
  by (simp add: outside_env_def resolver_defs sample_defs)

text \<open>
  Claim C10. When the command that lists the conflicted paths exits with a non-zero
  status, \<^verbatim>\<open>detect_conflicts\<close> returns the empty list and \<^verbatim>\<open>resolve_all_conflicts\<close>
  prints that no conflict was detected and returns \<^verbatim>\<open>True\<close>; the listing is the only
  command run and nothing is written or staged. A resolver that has not listed conflicts
  before ends exactly as in a repository whose listing succeeds and is empty.
\<close>

theorem listing_failure_is_clean:
  assumes "run E [''git'', ''diff'', ''--name-only'', ''--diff-filter=U'']
             (Some (repo_root self)) (world p) = (failed, w)"
    and "returncode failed \<noteq> 0"
  shows "detect_conflicts E self p =
           ([], self,
            \<lparr>world = w,
             trace = trace p @ [Run [''git'', ''diff'', ''--name-only'', ''--diff-filter=U'']
                                  (Some (repo_root self))]\<rparr>) \<and>
         resolve_all_conflicts E self p =
           (Inr True, self,
            \<lparr>world = w,
             trace = trace p @ [Run [''git'', ''diff'', ''--name-only'', ''--diff-filter=U'']
                                  (Some (repo_root self)),
                                Print NoConflictsDetected]\<rparr>) \<and>
         (run E' [''git'', ''diff'', ''--name-only'', ''--diff-filter=U'']
              (Some (repo_root self)) (world p') = (ok, w) \<and>
            returncode ok = 0 \<and> stdout ok = [] \<and> trace p' = trace p \<and> conflicts self = []
            \<longrightarrow> resolve_all_conflicts E' self p' = resolve_all_conflicts E self p)"
proof -
  have d: "detect_conflicts E self p =
           ([], self,
            \<lparr>world = w,
             trace = trace p @ [Run [''git'', ''diff'', ''--name-only'', ''--diff-filter=U'']
                                  (Some (repo_root self))]\<rparr>)"
    using assms by (simp add: detect_conflicts_def run_git_command_def subprocess_run_def)
  then have r: "resolve_all_conflicts E self p =
           (Inr True, self,
            \<lparr>world = w,
             trace = trace p @ [Run [''git'', ''diff'', ''--name-only'', ''--diff-filter=U'']
                                  (Some (repo_root self)),
                                Print NoConflictsDetected]\<rparr>)"
    by (simp add: resolve_all_conflicts_def emit_def)
  have "resolve_all_conflicts E' self p' = resolve_all_conflicts E self p"
    if "run E' [''git'', ''diff'', ''--name-only'', ''--diff-filter=U'']
              (Some (repo_root self)) (world p') = (ok, w)"
      and "returncode ok = 0" and "stdout ok = []" and "trace p' = trace p"
      and "conflicts self = []"
    using that unfolding r
    by (simp add: resolve_all_conflicts_def detect_conflicts_def run_git_command_def
        subprocess_run_def emit_def strip_def)
  with d r show ?thesis by blast
qed

theorem listing_failure_is_clean_witness:
  "run failed_listing_env [''git'', ''diff'', ''--name-only'', ''--diff-filter=U'']
     (Some (repo_root sample_self)) (world start) = (answer 1 [], []) \<and>
   returncode (answer 1 []) \<noteq> 0 \<and>
   run clean_env [''git'', ''diff'', ''--name-only'', ''--diff-filter=U'']
     (Some (repo_root sample_self)) (world start) = (answer 0 [], []) \<and>
   returncode (answer 0 []) = 0 \<and> stdout (answer 0 []) = [] \<and> conflicts sample_self = [] \<and>
   detect_conflicts failed_listing_env sample_self start =
     ([], sample_self,
      \<lparr>world = [],
       trace = [Run [''git'', ''diff'', ''--name-only'', ''--diff-filter=U''] (Some ''/repo'')]\<rparr>) \<and>
   resolve_all_conflicts failed_listing_env sample_self start =
     (Inr True, sample_self,
      \<lparr>world = [],
       trace = [Run [''git'', ''diff'', ''--name-only'', ''--diff-filter=U''] (Some ''/repo''),
                Print NoConflictsDetected]\<rparr>) \<and>
   resolve_all_conflicts clean_env sample_self start =
     resolve_all_conflicts failed_listing_env sample_self start"
proof -
  have f: "run failed_listing_env [''git'', ''diff'', ''--name-only'', ''--diff-filter=U'']
     (Some (repo_root sample_self)) (world start) = (answer 1 [], [])"
    by (simp add: failed_listing_env_def start_def sample_env_def sample_run_def)
  have n: "returncode (answer 1 []) \<noteq> 0"
    by (simp add: answer_def)
  have c: "run clean_env [''git'', ''diff'', ''--name-only'', ''--diff-filter=U'']
     (Some (repo_root sample_self)) (world start) = (answer 0 [], [])"
    by (simp add: clean_env_def start_def sample_env_def sample_run_def)
  have z: "returncode (answer 0 []) = 0" "stdout (answer 0 []) = []" "conflicts sample_self = []"
    by (simp_all add: answer_def sample_self_def)
  from listing_failure_is_clean [OF f n, of clean_env start "answer 0 []"] f n c z
  show ?thesis by (simp add: start_def sample_self_def)
qed


section \<open>The structured merge on the store: properties\<close>

lemma repr_transfer:
  assumes "repr X h v j"
    and "length h \<le> length h'"
    and "\<And>a. a < length h \<Longrightarrow> a \<notin> X \<Longrightarrow> a \<notin> Y \<and> h' ! a = h ! a"
  shows "repr Y h' v j"
  using assms(1)
proof (induction rule: repr.induct)
  case (repr_list a vs js)
  from repr_list.hyps(1,2) assms(2,3) have "a < length h'" "a \<notin> Y" "h' ! a = h ! a"
    by auto
  moreover from repr_list.IH have "list_all2 (repr Y h') vs js"
    by (rule list_all2_mono) simp
  ultimately show ?case using repr_list.hyps(3) by (auto intro: repr.repr_list)
next
  case (repr_dict a items d)
  from repr_dict.hyps(1,2) assms(2,3) have "a < length h'" "a \<notin> Y" "h' ! a = h ! a"
    by auto
  moreover from repr_dict.IH have "list_all2 (rel_prod (=) (repr Y h')) items d"
    by (rule list_all2_mono) (auto simp: rel_prod_sel)
  ultimately show ?case using repr_dict.hyps(3) by (auto intro: repr.repr_dict)
qed (auto intro: repr.intros)

lemma items_transfer:
  assumes "list_all2 (rel_prod (=) (repr X h)) items d"
    and "length h \<le> length h'"
    and "\<And>a. a < length h \<Longrightarrow> a \<notin> X \<Longrightarrow> a \<notin> Y \<and> h' ! a = h ! a"
  shows "list_all2 (rel_prod (=) (repr Y h')) items d"
  using assms(1)
proof (rule list_all2_mono)
  fix x y
  assume "rel_prod (=) (repr X h) x y"
  then show "rel_prod (=) (repr Y h') x y"
    using repr_transfer [OF _ assms(2,3)] by (auto simp: rel_prod_sel)
qed

lemma lookup_rel:
  "list_all2 (rel_prod (=) R) items d \<Longrightarrow> rel_option R (lookup items k) (lookup d k)"
  by (induction items d rule: list_all2_induct) auto

lemma setitem_rel:
  "list_all2 (rel_prod (=) R) items d \<Longrightarrow> R v j \<Longrightarrow>
   list_all2 (rel_prod (=) R) (setitem items k v) (setitem d k j)"
  by (induction items d rule: list_all2_induct) auto

lemma repr_dictE:
  assumes "repr X h (VRef a) (JDict d)"
  obtains items where "a < length h" "a \<notin> X" "dict_at h a = Some items"
    "list_all2 (rel_prod (=) (repr X h)) items d"
  using assms by (cases rule: repr.cases) (auto simp: dict_at_def)

lemma is_dict_repr:
  "repr X h v j \<Longrightarrow> is_dict h v \<longleftrightarrow> (\<exists>d. j = JDict d)"
  by (cases rule: repr.cases) (auto simp: is_dict_def dict_at_def)

lemma size_JDict_pos: "0 < size (JDict d)"
  by simp

lemma size_item: "(k, j) \<in> set d \<Longrightarrow> size j < size (JDict d)"
  by (induction d) auto

lemma store_item_dict:
  assumes "dict_at h a = Some r"
  shows "store_item h a key v = Some (h[a := ODict (setitem r key v)])"
    and "dict_at (h[a := ODict (setitem r key v)]) a = Some (setitem r key v)"
  using assms by (auto simp: store_item_def dict_at_def split: if_splits)

lemma dict_at_less: "dict_at h a = Some r \<Longrightarrow> a < length h"
  by (auto simp: dict_at_def split: if_splits)

lemma dict_at_same:
  "dict_at h a = Some r \<Longrightarrow> length h \<le> length h' \<Longrightarrow> h' ! a = h ! a \<Longrightarrow>
   dict_at h' a = Some r"
  by (auto simp: dict_at_def split: if_splits)

lemma repr_dict_ref:
  assumes "repr X h v (JDict d)"
  obtains a where "v = VRef a"
  using assms by (cases rule: repr.cases) auto

lemma merge_step_absent:
  "lookup res key = None \<Longrightarrow> merge_step res key j = setitem res key j"
  by (simp add: merge_step_def)

lemma merge_step_dicts:
  "lookup res key = Some (JDict e1) \<Longrightarrow>
   merge_step res key (JDict e2) = setitem res key (JDict (merge_dict_recursive e1 e2))"
  by (simp add: merge_step_def)

lemma merge_step_keep:
  "lookup res key = Some jc \<Longrightarrow> \<not> ((\<exists>e1. jc = JDict e1) \<and> (\<exists>e2. j = JDict e2)) \<Longrightarrow>
   merge_step res key j = res"
  by (auto simp: merge_step_def split: json.splits)

lemma merge_items_heap_ok:
  assumes rec: "\<And>(h :: 'f heap) a b X e1 e2.
      repr X h (VRef a) (JDict e1) \<Longrightarrow> repr X h (VRef b) (JDict e2) \<Longrightarrow>
      (\<forall>x\<in>X. x < length h) \<Longrightarrow> size (JDict e2) \<le> n \<Longrightarrow>
      \<exists>h'. merge_dict_recursive_heap n h a b = Some (h', length h) \<and>
           length h \<le> length h' \<and> (\<forall>i<length h. h' ! i = h ! i) \<and>
           repr X h' (VRef (length h)) (JDict (merge_dict_recursive e1 e2))"
  shows "dict_at (h :: 'f heap) result = Some r \<Longrightarrow> result \<notin> X \<Longrightarrow> (\<forall>x\<in>X. x < length h) \<Longrightarrow>
     list_all2 (rel_prod (=) (repr (insert result X) h)) r res \<Longrightarrow>
     list_all2 (rel_prod (=) (repr (insert result X) h)) items its \<Longrightarrow>
     (\<forall>kj\<in>set its. size (snd kj) \<le> n) \<Longrightarrow>
     \<exists>h' r'. merge_items_heap n h result items = Some h' \<and>
       length h \<le> length h' \<and> (\<forall>i<length h. i \<noteq> result \<longrightarrow> h' ! i = h ! i) \<and>
       dict_at h' result = Some r' \<and>
       list_all2 (rel_prod (=) (repr (insert result X) h')) r' (merge_items res its)"
proof (induction items arbitrary: h r res its)
  case Nil
  then show ?case by auto
next
  case (Cons kv rest)
  let ?Y = "insert result X"
  obtain key "value" where kv: "kv = (key, value)" by (cases kv)
  from Cons.prems(5) kv obtain z its' where z: "its = z # its'"
    and hd: "rel_prod (=) (repr ?Y h) (key, value) z"
    and rest: "list_all2 (rel_prod (=) (repr ?Y h)) rest its'"
    by (auto simp: list_all2_Cons1)
  from hd obtain j where its: "its = (key, j) # its'" and vj: "repr ?Y h value j"
    unfolding z by (cases z) auto
  from Cons.prems(6) its have sj: "size j \<le> n" and srest: "\<forall>kj\<in>set its'. size (snd kj) \<le> n"
    by auto
  from Cons.prems(1) have rl: "result < length h" by (rule dict_at_less)
  have lk: "rel_option (repr ?Y h) (lookup r key) (lookup res key)"
    using Cons.prems(4) by (rule lookup_rel)
  have pure: "merge_items res its = merge_items (merge_step res key j) its'"
    unfolding its by (rule merge_items_Cons)
  show ?case
  proof (cases "lookup r key")
    case None
    with lk have ln: "lookup res key = None" by simp
    let ?h1 = "h[result := ODict (setitem r key value)]"
    have keep: "\<And>a. a < length h \<Longrightarrow> a \<notin> ?Y \<Longrightarrow> a \<notin> ?Y \<and> ?h1 ! a = h ! a"
      by auto
    have d1: "dict_at ?h1 result = Some (setitem r key value)"
      using Cons.prems(1) by (rule store_item_dict)
    have r1: "list_all2 (rel_prod (=) (repr ?Y ?h1)) (setitem r key value) (setitem res key j)"
      by (rule items_transfer [OF setitem_rel [OF Cons.prems(4) vj]]) (use keep in auto)
    have rest1: "list_all2 (rel_prod (=) (repr ?Y ?h1)) rest its'"
      by (rule items_transfer [OF rest]) (use keep in auto)
    from Cons.prems(3) have x1: "\<forall>x\<in>X. x < length ?h1" by simp
    from Cons.IH [OF d1 Cons.prems(2) x1 r1 rest1 srest]
    obtain h' r' where run: "merge_items_heap n ?h1 result rest = Some h'"
      and len: "length ?h1 \<le> length h'"
      and frame: "\<forall>i<length ?h1. i \<noteq> result \<longrightarrow> h' ! i = ?h1 ! i"
      and d': "dict_at h' result = Some r'"
      and r': "list_all2 (rel_prod (=) (repr ?Y h')) r' (merge_items (setitem res key j) its')"
      by blast
    have "merge_items_heap n h result (kv # rest) = Some h'"
      using None Cons.prems(1) run
      by (simp add: kv store_item_dict(1) [OF Cons.prems(1)])
    moreover have "\<forall>i<length h. i \<noteq> result \<longrightarrow> h' ! i = h ! i"
      using frame by auto
    moreover have "merge_items res its = merge_items (setitem res key j) its'"
      using pure ln by (simp add: merge_step_absent)
    ultimately show ?thesis using len d' r' by auto
  next
    case (Some cur)
    with lk obtain jc where ls: "lookup res key = Some jc" and cj: "repr ?Y h cur jc"
      by (auto simp: option_rel_Some1)
    show ?thesis
    proof (cases "is_dict h cur \<and> is_dict h value")
      case True
      with cj vj obtain e1 e2 where jc: "jc = JDict e1" and j: "j = JDict e2"
        by (auto simp: is_dict_repr)
      from cj jc obtain a where cur: "cur = VRef a" by (auto elim: repr_dict_ref)
      from vj j obtain b where val: "value = VRef b" by (auto elim: repr_dict_ref)
      from Cons.prems(3) rl have xs: "\<forall>x\<in>?Y. x < length h" by auto
      from rec [OF cj [unfolded jc cur] vj [unfolded j val] xs sj [unfolded j]]
      obtain h1 where call: "merge_dict_recursive_heap n h a b = Some (h1, length h)"
        and len1: "length h \<le> length h1"
        and frame1: "\<forall>i<length h. h1 ! i = h ! i"
        and m: "repr ?Y h1 (VRef (length h)) (JDict (merge_dict_recursive e1 e2))"
        by blast
      let ?v = "VRef (length h) :: 'f val"
      let ?h2 = "h1[result := ODict (setitem r key ?v)]"
      from frame1 rl have "h1 ! result = h ! result" by simp
      with Cons.prems(1) len1 have dr1: "dict_at h1 result = Some r"
        by (rule dict_at_same)
      have d2: "dict_at ?h2 result = Some (setitem r key ?v)"
        using dr1 by (rule store_item_dict)
      have keep: "\<And>i. i < length h \<Longrightarrow> i \<notin> ?Y \<Longrightarrow> i \<notin> ?Y \<and> ?h2 ! i = h ! i"
        using frame1 by auto
      have keep1: "\<And>i. i < length h1 \<Longrightarrow> i \<notin> ?Y \<Longrightarrow> i \<notin> ?Y \<and> ?h2 ! i = h1 ! i"
        by auto
      have len2: "length h \<le> length ?h2" using len1 by simp
      have rr: "list_all2 (rel_prod (=) (repr ?Y ?h2)) r res"
        by (rule items_transfer [OF Cons.prems(4) len2]) (use keep in auto)
      have mm: "repr ?Y ?h2 ?v (JDict (merge_dict_recursive e1 e2))"
        by (rule repr_transfer [OF m]) (use keep1 in auto)
      have r2: "list_all2 (rel_prod (=) (repr ?Y ?h2)) (setitem r key ?v)
          (setitem res key (JDict (merge_dict_recursive e1 e2)))"
        using rr mm by (rule setitem_rel)
      have rest2: "list_all2 (rel_prod (=) (repr ?Y ?h2)) rest its'"
        by (rule items_transfer [OF rest len2]) (use keep in auto)
      from Cons.prems(3) len1 have x2: "\<forall>x\<in>X. x < length ?h2" by auto
      from Cons.IH [OF d2 Cons.prems(2) x2 r2 rest2 srest]
      obtain h' r' where run: "merge_items_heap n ?h2 result rest = Some h'"
        and len: "length ?h2 \<le> length h'"
        and frame: "\<forall>i<length ?h2. i \<noteq> result \<longrightarrow> h' ! i = ?h2 ! i"
        and d': "dict_at h' result = Some r'"
        and r': "list_all2 (rel_prod (=) (repr ?Y h')) r'
            (merge_items (setitem res key (JDict (merge_dict_recursive e1 e2))) its')"
        by blast
      have "merge_items_heap n h result (kv # rest) = Some h'"
        using Some True Cons.prems(1) call run
        by (simp add: kv cur val store_item_dict(1) [OF dr1])
      moreover have "\<forall>i<length h. i \<noteq> result \<longrightarrow> h' ! i = h ! i"
        using frame frame1 len1 by auto
      moreover have "merge_items res its =
          merge_items (setitem res key (JDict (merge_dict_recursive e1 e2))) its'"
        using pure ls jc j by (simp add: merge_step_dicts)
      moreover have "length h \<le> length h'" using len len1 by simp
      ultimately show ?thesis using d' r' by auto
    next
      case False
      with cj vj have "\<not> ((\<exists>e1. jc = JDict e1) \<and> (\<exists>e2. j = JDict e2))"
        by (auto simp: is_dict_repr)
      with ls have "merge_step res key j = res" by (rule merge_step_keep)
      with pure have p: "merge_items res its = merge_items res its'" by simp
      from Cons.IH [OF Cons.prems(1-4) rest srest]
      obtain h' r' where run: "merge_items_heap n h result rest = Some h'"
        and len: "length h \<le> length h'"
        and frame: "\<forall>i<length h. i \<noteq> result \<longrightarrow> h' ! i = h ! i"
        and d': "dict_at h' result = Some r'"
        and r': "list_all2 (rel_prod (=) (repr ?Y h')) r' (merge_items res its')"
        by blast
      have "merge_items_heap n h result (kv # rest) = Some h'"
        using Some False Cons.prems(1) run by (auto simp add: kv)
      with len frame d' r' p show ?thesis by auto
    qed
  qed
qed

lemma merge_dict_recursive_heap_ok:
  "repr X (h :: 'f heap) (VRef a) (JDict e1) \<Longrightarrow> repr X h (VRef b) (JDict e2) \<Longrightarrow>
   (\<forall>x\<in>X. x < length h) \<Longrightarrow> size (JDict e2) \<le> n \<Longrightarrow>
   \<exists>h'. merge_dict_recursive_heap n h a b = Some (h', length h) \<and>
        length h \<le> length h' \<and> (\<forall>i<length h. h' ! i = h ! i) \<and>
        repr X h' (VRef (length h)) (JDict (merge_dict_recursive e1 e2))"
proof (induction n arbitrary: h a b X e1 e2)
  case 0
  then show ?case by simp
next
  case (Suc n)
  let ?result = "length h"
  let ?Y = "insert ?result X"
  from Suc.prems(1) obtain items1 where d1: "dict_at h a = Some items1"
    and r1: "list_all2 (rel_prod (=) (repr X h)) items1 e1"
    by (rule repr_dictE)
  from Suc.prems(2) obtain items2 where d2: "dict_at h b = Some items2"
    and r2: "list_all2 (rel_prod (=) (repr X h)) items2 e2"
    by (rule repr_dictE)
  let ?h1 = "h @ [ODict items1]"
  have fresh: "?result \<notin> X" using Suc.prems(3) by auto
  have keep: "\<And>i. i < length h \<Longrightarrow> i \<notin> X \<Longrightarrow> i \<notin> ?Y \<and> ?h1 ! i = h ! i"
    by (auto simp: nth_append)
  have dres: "dict_at ?h1 ?result = Some items1"
    by (simp add: dict_at_def)
  have x1: "\<forall>x\<in>X. x < length ?h1" using Suc.prems(3) by auto
  have q1: "list_all2 (rel_prod (=) (repr ?Y ?h1)) items1 e1"
    by (rule items_transfer [OF r1]) (use keep in auto)
  have q2: "list_all2 (rel_prod (=) (repr ?Y ?h1)) items2 e2"
    by (rule items_transfer [OF r2]) (use keep in auto)
  have sz: "\<forall>kj\<in>set e2. size (snd kj) \<le> n"
  proof
    fix kj assume "kj \<in> set e2"
    then have "(fst kj, snd kj) \<in> set e2" by simp
    then have "size (snd kj) < size (JDict e2)" by (rule size_item)
    with Suc.prems(4) show "size (snd kj) \<le> n" by simp
  qed
  from merge_items_heap_ok [where n = n, OF Suc.IH dres fresh x1 q1 q2 sz]
  obtain h' r' where run: "merge_items_heap n ?h1 ?result items2 = Some h'"
    and len: "length ?h1 \<le> length h'"
    and frame: "\<forall>i<length ?h1. i \<noteq> ?result \<longrightarrow> h' ! i = ?h1 ! i"
    and d': "dict_at h' ?result = Some r'"
    and r': "list_all2 (rel_prod (=) (repr ?Y h')) r' (merge_items e1 e2)"
    by blast
  have "merge_dict_recursive_heap (Suc n) h a b = Some (h', ?result)"
    using d1 d2 run by simp
  moreover have "length h \<le> length h'" using len by simp
  moreover have "\<forall>i<length h. h' ! i = h ! i"
    using frame by (auto simp: nth_append)
  moreover have "repr X h' (VRef ?result) (JDict (merge_dict_recursive e1 e2))"
  proof -
    from d' have "?result < length h'" "h' ! ?result = ODict r'"
      by (auto simp: dict_at_def split: if_splits obj.splits)
    moreover have "list_all2 (rel_prod (=) (repr X h')) r' (merge_items e1 e2)"
      by (rule items_transfer [OF r']) auto
    ultimately show ?thesis using fresh by (auto intro: repr.repr_dict)
  qed
  ultimately show ?case by blast
qed

lemma merge_top_items_absent:
  "lookup dm key = None \<Longrightarrow>
   merge_top_items dm res ((key, j) # its) = merge_top_items dm (setitem res key j) its"
  by simp

lemma merge_top_items_dicts:
  "lookup dm key = Some (JDict e1) \<Longrightarrow>
   merge_top_items dm res ((key, JDict e2) # its) =
     merge_top_items dm (setitem res key (JDict (merge_dict_recursive e1 e2))) its"
  by simp

lemma merge_top_items_keep:
  "lookup dm key = Some jc \<Longrightarrow> \<not> ((\<exists>e1. jc = JDict e1) \<and> (\<exists>e2. j = JDict e2)) \<Longrightarrow>
   merge_top_items dm res ((key, j) # its) = merge_top_items dm res its"
  by (auto split: json.splits)

lemma merge_top_items_heap_ok:
  "dict_at (h :: 'f heap) maddr = Some m \<Longrightarrow> dict_at h merged = Some r \<Longrightarrow> maddr \<noteq> merged \<Longrightarrow>
   merged \<notin> X \<Longrightarrow> (\<forall>x\<in>X. x < length h) \<Longrightarrow>
   list_all2 (rel_prod (=) (repr (insert merged X) h)) m dm \<Longrightarrow>
   list_all2 (rel_prod (=) (repr (insert merged X) h)) r res \<Longrightarrow>
   list_all2 (rel_prod (=) (repr (insert merged X) h)) items its \<Longrightarrow>
   (\<forall>kj\<in>set its. size (snd kj) \<le> n) \<Longrightarrow>
   \<exists>h' r'. merge_top_items_heap n h maddr merged items = Some h' \<and>
     length h \<le> length h' \<and> (\<forall>i<length h. i \<noteq> merged \<longrightarrow> h' ! i = h ! i) \<and>
     dict_at h' merged = Some r' \<and>
     list_all2 (rel_prod (=) (repr (insert merged X) h')) r' (merge_top_items dm res its)"
proof (induction items arbitrary: h r res its)
  case Nil
  then show ?case by auto
next
  case (Cons kv rest)
  let ?Y = "insert merged X"
  obtain key "value" where kv: "kv = (key, value)" by (cases kv)
  from Cons.prems(8) kv obtain z its' where z: "its = z # its'"
    and hd: "rel_prod (=) (repr ?Y h) (key, value) z"
    and rest: "list_all2 (rel_prod (=) (repr ?Y h)) rest its'"
    by (auto simp: list_all2_Cons1)
  from hd obtain j where its: "its = (key, j) # its'" and vj: "repr ?Y h value j"
    unfolding z by (cases z) auto
  from Cons.prems(9) its have sj: "size j \<le> n" and srest: "\<forall>kj\<in>set its'. size (snd kj) \<le> n"
    by auto
  from Cons.prems(2) have rl: "merged < length h" by (rule dict_at_less)
  from Cons.prems(1) have ml: "maddr < length h" by (rule dict_at_less)
  have lk: "rel_option (repr ?Y h) (lookup m key) (lookup dm key)"
    using Cons.prems(6) by (rule lookup_rel)
  show ?case
  proof (cases "lookup m key")
    case None
    with lk have ln: "lookup dm key = None" by simp
    let ?h1 = "h[merged := ODict (setitem r key value)]"
    have keep: "\<And>a. a < length h \<Longrightarrow> a \<notin> ?Y \<Longrightarrow> a \<notin> ?Y \<and> ?h1 ! a = h ! a"
      by auto
    have d1: "dict_at ?h1 merged = Some (setitem r key value)"
      using Cons.prems(2) by (rule store_item_dict)
    have dm1: "dict_at ?h1 maddr = Some m"
      using Cons.prems(1) by (rule dict_at_same) (use Cons.prems(3) in auto)
    have m1: "list_all2 (rel_prod (=) (repr ?Y ?h1)) m dm"
      by (rule items_transfer [OF Cons.prems(6)]) (use keep in auto)
    have r1: "list_all2 (rel_prod (=) (repr ?Y ?h1)) (setitem r key value) (setitem res key j)"
      by (rule items_transfer [OF setitem_rel [OF Cons.prems(7) vj]]) (use keep in auto)
    have rest1: "list_all2 (rel_prod (=) (repr ?Y ?h1)) rest its'"
      by (rule items_transfer [OF rest]) (use keep in auto)
    from Cons.prems(5) have x1: "\<forall>x\<in>X. x < length ?h1" by simp
    from Cons.IH [OF dm1 d1 Cons.prems(3,4) x1 m1 r1 rest1 srest]
    obtain h' r' where run: "merge_top_items_heap n ?h1 maddr merged rest = Some h'"
      and len: "length ?h1 \<le> length h'"
      and frame: "\<forall>i<length ?h1. i \<noteq> merged \<longrightarrow> h' ! i = ?h1 ! i"
      and d': "dict_at h' merged = Some r'"
      and r': "list_all2 (rel_prod (=) (repr ?Y h')) r'
          (merge_top_items dm (setitem res key j) its')"
      by blast
    have "merge_top_items_heap n h maddr merged (kv # rest) = Some h'"
      using None Cons.prems(1) run
      by (simp add: kv store_item_dict(1) [OF Cons.prems(2)])
    moreover have "\<forall>i<length h. i \<noteq> merged \<longrightarrow> h' ! i = h ! i"
      using frame by auto
    moreover have "merge_top_items dm res its = merge_top_items dm (setitem res key j) its'"
      unfolding its using ln by (rule merge_top_items_absent)
    ultimately show ?thesis using len d' r' by auto
  next
    case (Some cur)
    with lk obtain jc where ls: "lookup dm key = Some jc" and cj: "repr ?Y h cur jc"
      by (auto simp: option_rel_Some1)
    show ?thesis
    proof (cases "is_dict h cur \<and> is_dict h value")
      case True
      with cj vj obtain e1 e2 where jc: "jc = JDict e1" and j: "j = JDict e2"
        by (auto simp: is_dict_repr)
      from cj jc obtain a where cur: "cur = VRef a" by (auto elim: repr_dict_ref)
      from vj j obtain b where val: "value = VRef b" by (auto elim: repr_dict_ref)
      from Cons.prems(5) rl have xs: "\<forall>x\<in>?Y. x < length h" by auto
      from merge_dict_recursive_heap_ok
        [OF cj [unfolded jc cur] vj [unfolded j val] xs sj [unfolded j]]
      obtain h1 where call: "merge_dict_recursive_heap n h a b = Some (h1, length h)"
        and len1: "length h \<le> length h1"
        and frame1: "\<forall>i<length h. h1 ! i = h ! i"
        and mm: "repr ?Y h1 (VRef (length h)) (JDict (merge_dict_recursive e1 e2))"
        by blast
      let ?v = "VRef (length h) :: 'f val"
      let ?h2 = "h1[merged := ODict (setitem r key ?v)]"
      from frame1 rl have "h1 ! merged = h ! merged" by simp
      with Cons.prems(2) len1 have dr1: "dict_at h1 merged = Some r"
        by (rule dict_at_same)
      have d2: "dict_at ?h2 merged = Some (setitem r key ?v)"
        using dr1 by (rule store_item_dict)
      have dm2: "dict_at ?h2 maddr = Some m"
        using Cons.prems(1) by (rule dict_at_same) (use Cons.prems(3) len1 frame1 ml in auto)
      have keep: "\<And>i. i < length h \<Longrightarrow> i \<notin> ?Y \<Longrightarrow> i \<notin> ?Y \<and> ?h2 ! i = h ! i"
        using frame1 by auto
      have keep1: "\<And>i. i < length h1 \<Longrightarrow> i \<notin> ?Y \<Longrightarrow> i \<notin> ?Y \<and> ?h2 ! i = h1 ! i"
        by auto
      have len2: "length h \<le> length ?h2" using len1 by simp
      have m2: "list_all2 (rel_prod (=) (repr ?Y ?h2)) m dm"
        by (rule items_transfer [OF Cons.prems(6) len2]) (use keep in auto)
      have rr: "list_all2 (rel_prod (=) (repr ?Y ?h2)) r res"
        by (rule items_transfer [OF Cons.prems(7) len2]) (use keep in auto)
      have mm2: "repr ?Y ?h2 ?v (JDict (merge_dict_recursive e1 e2))"
        by (rule repr_transfer [OF mm]) (use keep1 in auto)
      have r2: "list_all2 (rel_prod (=) (repr ?Y ?h2)) (setitem r key ?v)
          (setitem res key (JDict (merge_dict_recursive e1 e2)))"
        using rr mm2 by (rule setitem_rel)
      have rest2: "list_all2 (rel_prod (=) (repr ?Y ?h2)) rest its'"
        by (rule items_transfer [OF rest len2]) (use keep in auto)
      from Cons.prems(5) len1 have x2: "\<forall>x\<in>X. x < length ?h2" by auto
      from Cons.IH [OF dm2 d2 Cons.prems(3,4) x2 m2 r2 rest2 srest]
      obtain h' r' where run: "merge_top_items_heap n ?h2 maddr merged rest = Some h'"
        and len: "length ?h2 \<le> length h'"
        and frame: "\<forall>i<length ?h2. i \<noteq> merged \<longrightarrow> h' ! i = ?h2 ! i"
        and d': "dict_at h' merged = Some r'"
        and r': "list_all2 (rel_prod (=) (repr ?Y h')) r'
            (merge_top_items dm (setitem res key (JDict (merge_dict_recursive e1 e2))) its')"
        by blast
      have "merge_top_items_heap n h maddr merged (kv # rest) = Some h'"
        using Some True Cons.prems(1) call run
        by (simp add: kv cur val store_item_dict(1) [OF dr1])
      moreover have "\<forall>i<length h. i \<noteq> merged \<longrightarrow> h' ! i = h ! i"
        using frame frame1 len1 by auto
      moreover have "merge_top_items dm res its =
          merge_top_items dm (setitem res key (JDict (merge_dict_recursive e1 e2))) its'"
        unfolding its j using ls [unfolded jc] by (rule merge_top_items_dicts)
      moreover have "length h \<le> length h'" using len len1 by simp
      ultimately show ?thesis using d' r' by auto
    next
      case False
      with cj vj have nb: "\<not> ((\<exists>e1. jc = JDict e1) \<and> (\<exists>e2. j = JDict e2))"
        by (auto simp: is_dict_repr)
      have p: "merge_top_items dm res its = merge_top_items dm res its'"
        unfolding its using ls nb by (rule merge_top_items_keep)
      from Cons.IH [OF Cons.prems(1-7) rest srest]
      obtain h' r' where run: "merge_top_items_heap n h maddr merged rest = Some h'"
        and len: "length h \<le> length h'"
        and frame: "\<forall>i<length h. i \<noteq> merged \<longrightarrow> h' ! i = h ! i"
        and d': "dict_at h' merged = Some r'"
        and r': "list_all2 (rel_prod (=) (repr ?Y h')) r' (merge_top_items dm res its')"
        by blast
      have "merge_top_items_heap n h maddr merged (kv # rest) = Some h'"
        using Some False Cons.prems(1) run by (auto simp add: kv)
      with len frame d' r' p show ?thesis by auto
    qed
  qed
qed

lemma frame_take:
  "length h \<le> length h' \<Longrightarrow> (\<forall>i<length h. h' ! i = h ! i) \<Longrightarrow> take (length h) h' = h"
  by (rule nth_equalityI) auto

lemma repr_not_dict:
  assumes "repr X h v j" and "\<forall>d. j \<noteq> JDict d"
  shows "merged_data_heap n h v w = Some (h, v)" and "merged_data j j' = j" and "\<not> is_dict h v"
  using assms
  by (cases rule: repr.cases;
      simp add: merged_data_heap_def merged_data_def is_dict_def dict_at_def)+

text \<open>
  Claim C9, as the code has it. Let the values \<open>main_data\<close> and \<open>head_data\<close> be the documents
  \<open>D1\<close> and \<open>D2\<close> in the store \<open>h\<close>, and let the bound on the depth be at least the size of
  \<open>D2\<close>. Then the merge returns; no object of \<open>h\<close> is changed (the store after the call
  starts with \<open>h\<close>), so both arguments are the documents they were; the result is the
  document \<open>merged_data D1 D2\<close> of the first sections. When \<open>main_data\<close> is a dictionary the
  result is a new object, at an address \<open>h\<close> does not have. When \<open>main_data\<close> is not a
  dictionary the result is \<open>main_data\<close> itself and the store is as it was: not a new
  document, as the counterexample shows for a list.
\<close>

theorem merged_data_heap_frame:
  assumes "repr {} h main_data D1" and "repr {} h head_data D2" and "size D2 \<le> n"
  shows "\<exists>h' r. merged_data_heap n h main_data head_data = Some (h', r) \<and>
      take (length h) h' = h \<and>
      repr {} h' main_data D1 \<and> repr {} h' head_data D2 \<and>
      repr {} h' r (merged_data D1 D2) \<and>
      (if is_dict h main_data then r = VRef (length h) else h' = h \<and> r = main_data)"
proof (cases "\<exists>d1. D1 = JDict d1")
  case False
  then have nd: "\<forall>d. D1 \<noteq> JDict d" by simp
  from repr_not_dict(1) [OF assms(1) nd, of n head_data]
    repr_not_dict(2) [OF assms(1) nd, of D2] repr_not_dict(3) [OF assms(1) nd] assms(1,2)
  show ?thesis by simp
next
  case True
  then obtain d1 where D1: "D1 = JDict d1" by blast
  from assms(1) D1 obtain a where maddr: "main_data = VRef a" by (auto elim: repr_dict_ref)
  from assms(1) [unfolded D1 maddr] obtain items where al: "a < length h"
    and da: "dict_at h a = Some items"
    and ra: "list_all2 (rel_prod (=) (repr {} h)) items d1"
    by (rule repr_dictE)
  let ?merged = "length h"
  let ?h1 = "h @ [ODict items]"
  let ?Y = "insert ?merged {}"
  have isd: "is_dict h main_data" using da by (simp add: maddr is_dict_def)
  have keep: "\<And>i. i < length h \<Longrightarrow> i \<notin> {} \<Longrightarrow> i \<notin> ?Y \<and> ?h1 ! i = h ! i"
    by (auto simp: nth_append)
  have keep0: "\<And>i. i < length h \<Longrightarrow> i \<notin> {} \<Longrightarrow> i \<notin> {} \<and> ?h1 ! i = h ! i"
    by (auto simp: nth_append)
  have dmerged: "dict_at ?h1 ?merged = Some items" by (simp add: dict_at_def)
  have dmain: "dict_at ?h1 a = Some items"
    using da by (rule dict_at_same) (use al in \<open>auto simp: nth_append\<close>)
  have q1: "list_all2 (rel_prod (=) (repr ?Y ?h1)) items d1"
    by (rule items_transfer [OF ra]) (use keep in auto)
  show ?thesis
  proof (cases "\<exists>d2. D2 = JDict d2")
    case True
    then obtain d2 where D2: "D2 = JDict d2" by blast
    from assms(2) D2 obtain b where head: "head_data = VRef b" by (auto elim: repr_dict_ref)
    from assms(2) [unfolded D2 head] obtain items2 where bl: "b < length h"
      and db: "dict_at h b = Some items2"
      and rb: "list_all2 (rel_prod (=) (repr {} h)) items2 d2"
      by (rule repr_dictE)
    have dhead: "dict_at ?h1 b = Some items2"
      using db by (rule dict_at_same) (use bl in \<open>auto simp: nth_append\<close>)
    have q2: "list_all2 (rel_prod (=) (repr ?Y ?h1)) items2 d2"
      by (rule items_transfer [OF rb]) (use keep in auto)
    have sz: "\<forall>kj\<in>set d2. size (snd kj) \<le> n"
    proof
      fix kj assume "kj \<in> set d2"
      then have "(fst kj, snd kj) \<in> set d2" by simp
      then have "size (snd kj) < size (JDict d2)" by (rule size_item)
      with assms(3) D2 show "size (snd kj) \<le> n" by simp
    qed
    have ne: "a \<noteq> ?merged" using al by simp
    have x: "\<forall>x\<in>{}. x < length ?h1" by simp
    from merge_top_items_heap_ok [OF dmain dmerged ne _ x q1 q1 q2 sz]
    obtain h' r' where run: "merge_top_items_heap n ?h1 a ?merged items2 = Some h'"
      and len: "length ?h1 \<le> length h'"
      and frame: "\<forall>i<length ?h1. i \<noteq> ?merged \<longrightarrow> h' ! i = ?h1 ! i"
      and d': "dict_at h' ?merged = Some r'"
      and r': "list_all2 (rel_prod (=) (repr ?Y h')) r' (merge_top_items d1 d1 d2)"
      by auto
    have res: "merged_data_heap n h main_data head_data = Some (h', VRef ?merged)"
      using da dhead run by (simp add: merged_data_heap_def maddr head)
    have len0: "length h \<le> length h'" using len by simp
    have frame0: "\<forall>i<length h. h' ! i = h ! i"
      using frame by (auto simp: nth_append)
    have unchanged: "take (length h) h' = h"
      using len0 frame0 by (rule frame_take)
    have in1: "repr {} h' main_data D1"
      by (rule repr_transfer [OF assms(1) len0]) (use frame0 in auto)
    have in2: "repr {} h' head_data D2"
      by (rule repr_transfer [OF assms(2) len0]) (use frame0 in auto)
    have out: "repr {} h' (VRef ?merged) (merged_data D1 D2)"
    proof -
      from d' have "?merged < length h'" "h' ! ?merged = ODict r'"
        by (auto simp: dict_at_def split: if_splits obj.splits)
      moreover have "list_all2 (rel_prod (=) (repr {} h')) r' (merge_top_items d1 d1 d2)"
        by (rule items_transfer [OF r']) auto
      ultimately have "repr {} h' (VRef ?merged) (JDict (merge_top_items d1 d1 d2))"
        by (auto intro: repr.repr_dict)
      then show ?thesis by (simp add: merged_data_def D1 D2)
    qed
    from res unchanged in1 in2 out isd show ?thesis by simp
  next
    case False
    then have nd: "\<forall>d. D2 \<noteq> JDict d" by simp
    have nh: "\<not> is_dict ?h1 head_data"
      by (rule repr_not_dict(3) [OF repr_transfer [OF assms(2)] nd, of ?h1 "{}"])
        (use keep0 in auto)
    have res: "merged_data_heap n h main_data head_data = Some (?h1, VRef ?merged)"
      using da nh by (auto simp add: merged_data_heap_def maddr is_dict_def split: val.splits)
    have in1: "repr {} ?h1 main_data D1"
      by (rule repr_transfer [OF assms(1)]) (use keep0 in auto)
    have in2: "repr {} ?h1 head_data D2"
      by (rule repr_transfer [OF assms(2)]) (use keep0 in auto)
    have "list_all2 (rel_prod (=) (repr {} ?h1)) items d1"
      by (rule items_transfer [OF ra]) (use keep0 in auto)
    then have "repr {} ?h1 (VRef ?merged) (JDict d1)"
      by (auto intro!: repr.repr_dict)
    moreover from nd have "merged_data D1 D2 = D1"
      by (cases D2) (simp_all add: merged_data_def D1)
    ultimately have out: "repr {} ?h1 (VRef ?merged) (merged_data D1 D2)"
      by (simp add: D1)
    from res in1 in2 out isd show ?thesis by simp
  qed
qed

theorem merged_data_heap_frame_counterexample:
  "repr {} list_heap (VRef 0) (JList [JInt 1]) \<and>
   repr {} list_heap (VRef 1) (JDict []) \<and>
   merged_data_heap 1 list_heap (VRef 0) (VRef 1) = Some (list_heap, VRef 0)"
proof -
  have "repr {} list_heap (VRef 0) (JList [JInt 1])"
    by (rule repr.repr_list [where vs = "[VInt 1]"])
      (auto simp: list_heap_def intro: repr.intros)
  moreover have "repr {} list_heap (VRef 1) (JDict [])"
    by (rule repr.repr_dict [where items = "[]"]) (auto simp: list_heap_def)
  moreover have "merged_data_heap 1 list_heap (VRef 0) (VRef 1) = Some (list_heap, VRef 0)"
    by (simp add: merged_data_heap_def dict_at_def list_heap_def)
  ultimately show ?thesis by blast
qed

theorem merged_data_heap_frame_witness:
  "repr {} nested_heap (VRef 1) (JDict [(''app'', JDict [(''port'', JInt 1)])]) \<and>
   repr {} nested_heap (VRef 3) (JDict [(''app'', JDict [(''debug'', JBool True)])]) \<and>
   size (JDict [(''app'', JDict [(''debug'', JBool True :: unit json)])]) \<le> 8 \<and>
   is_dict nested_heap (VRef 1) \<and>
   merged_data_heap 8 nested_heap (VRef 1) (VRef 3) =
     Some (nested_heap @
             [ODict [(''app'', VRef 5)],
              ODict [(''port'', VInt 1), (''debug'', VBool True)]],
           VRef 4) \<and>
   (\<exists>h'. merged_data_heap 8 nested_heap (VRef 1) (VRef 3) = Some (h', VRef 4) \<and>
         take 4 h' = nested_heap \<and>
         repr {} h' (VRef 1) (JDict [(''app'', JDict [(''port'', JInt 1)])]) \<and>
         repr {} h' (VRef 3) (JDict [(''app'', JDict [(''debug'', JBool True)])]) \<and>
         repr {} h' (VRef 4)
           (merged_data (JDict [(''app'', JDict [(''port'', JInt 1)])])
              (JDict [(''app'', JDict [(''debug'', JBool True)])])))"
proof -
  have len: "length nested_heap = 4" by (simp add: nested_heap_def)
  have n0: "nested_heap ! 0 = ODict [(''port'', VInt 1)]"
    and n1: "nested_heap ! 1 = ODict [(''app'', VRef 0)]"
    and n2: "nested_heap ! 2 = ODict [(''debug'', VBool True)]"
    and n3: "nested_heap ! 3 = ODict [(''app'', VRef 2)]"
    by (simp_all add: nested_heap_def)
  have p0: "repr {} nested_heap (VRef 0) (JDict [(''port'', JInt 1)])"
    by (rule repr.repr_dict [OF _ _ n0]) (simp_all add: len repr.intros)
  have p2: "repr {} nested_heap (VRef 2) (JDict [(''debug'', JBool True)])"
    by (rule repr.repr_dict [OF _ _ n2]) (simp_all add: len repr.intros)
  have r1: "repr {} nested_heap (VRef 1) (JDict [(''app'', JDict [(''port'', JInt 1)])])"
    by (rule repr.repr_dict [OF _ _ n1]) (simp_all add: len p0)
  have r2: "repr {} nested_heap (VRef 3) (JDict [(''app'', JDict [(''debug'', JBool True)])])"
    by (rule repr.repr_dict [OF _ _ n3]) (simp_all add: len p2)
  have sz: "size (JDict [(''app'', JDict [(''debug'', JBool True :: unit json)])]) \<le> 8"
    by simp
  have d: "is_dict nested_heap (VRef 1)"
    by (simp add: is_dict_def dict_at_def nested_heap_def)
  have run: "merged_data_heap 8 nested_heap (VRef 1) (VRef 3) =
     Some (nested_heap @
             [ODict [(''app'', VRef 5)],
              ODict [(''port'', VInt 1), (''debug'', VBool True)]],
           VRef 4)"
    by (simp add: merged_data_heap_def dict_at_def is_dict_def store_item_def nested_heap_def
        eval_nat_numeral)
  from merged_data_heap_frame [OF r1 r2 sz] d len
  have "\<exists>h'. merged_data_heap 8 nested_heap (VRef 1) (VRef 3) = Some (h', VRef 4) \<and>
         take 4 h' = nested_heap \<and>
         repr {} h' (VRef 1) (JDict [(''app'', JDict [(''port'', JInt 1)])]) \<and>
         repr {} h' (VRef 3) (JDict [(''app'', JDict [(''debug'', JBool True)])]) \<and>
         repr {} h' (VRef 4)
           (merged_data (JDict [(''app'', JDict [(''port'', JInt 1)])])
              (JDict [(''app'', JDict [(''debug'', JBool True)])]))"
    by auto
  with r1 r2 sz d run show ?thesis by blast
qed


end
